theory Spec2Isabelle
  imports Complex_Main "HOL-Library.Log_Nat"
begin

section \<open>JavaScript values used by the library\<close>

subsection \<open>Numbers\<close>

text \<open>
  A TypeScript \<open>number\<close> is modelled as a finite real (a binary64 value is one), one
  of the two infinities, or NaN; the sign of zero is not modelled. Comparisons with NaN
  are false, \<open>x / 0\<close> is an infinity or NaN, and NaN and the infinities propagate
  through the operators. \<open>num_mul\<close>, \<open>num_div\<close> and \<open>num_sub\<close> give the exact result
  of an operation on finite values; the operators of the machine, which round it to
  binary64, follow them.
\<close>

datatype number = Fin real | PosInf | NegInf | NaN

fun num_lt :: "number \<Rightarrow> number \<Rightarrow> bool" where
  "num_lt (Fin a) (Fin b) = (a < b)"
| "num_lt (Fin a) PosInf = True"
| "num_lt NegInf (Fin b) = True"
| "num_lt NegInf PosInf = True"
| "num_lt _ _ = False"

fun num_le :: "number \<Rightarrow> number \<Rightarrow> bool" where
  "num_le (Fin a) (Fin b) = (a \<le> b)"
| "num_le (Fin a) PosInf = True"
| "num_le NegInf (Fin b) = True"
| "num_le NegInf PosInf = True"
| "num_le PosInf PosInf = True"
| "num_le NegInf NegInf = True"
| "num_le _ _ = False"

definition num_gt :: "number \<Rightarrow> number \<Rightarrow> bool" where
  "num_gt a b = num_lt b a"

definition num_ge :: "number \<Rightarrow> number \<Rightarrow> bool" where
  "num_ge a b = num_le b a"

text \<open>An infinity times a finite value: \<open>pos\<close> says whether the infinity is positive.\<close>

definition inf_times :: "bool \<Rightarrow> real \<Rightarrow> number" where
  "inf_times pos b = (if b = 0 then NaN else if (0 < b) = pos then PosInf else NegInf)"

fun num_mul :: "number \<Rightarrow> number \<Rightarrow> number" where
  "num_mul (Fin a) (Fin b) = Fin (a * b)"
| "num_mul NaN _ = NaN"
| "num_mul _ NaN = NaN"
| "num_mul PosInf (Fin b) = inf_times True b"
| "num_mul NegInf (Fin b) = inf_times False b"
| "num_mul (Fin a) PosInf = inf_times True a"
| "num_mul (Fin a) NegInf = inf_times False a"
| "num_mul PosInf PosInf = PosInf"
| "num_mul NegInf NegInf = PosInf"
| "num_mul PosInf NegInf = NegInf"
| "num_mul NegInf PosInf = NegInf"

text \<open>Division. A zero divisor counts as \<open>+0\<close>.\<close>

fun num_div :: "number \<Rightarrow> number \<Rightarrow> number" where
  "num_div (Fin a) (Fin b) =
     (if b \<noteq> 0 then Fin (a / b)
      else if a = 0 then NaN
      else if 0 < a then PosInf else NegInf)"
| "num_div NaN _ = NaN"
| "num_div _ NaN = NaN"
| "num_div (Fin a) PosInf = Fin 0"
| "num_div (Fin a) NegInf = Fin 0"
| "num_div PosInf (Fin b) = (if 0 \<le> b then PosInf else NegInf)"
| "num_div NegInf (Fin b) = (if 0 \<le> b then NegInf else PosInf)"
| "num_div _ _ = NaN"

fun num_sub :: "number \<Rightarrow> number \<Rightarrow> number" where
  "num_sub (Fin a) (Fin b) = Fin (a - b)"
| "num_sub NaN _ = NaN"
| "num_sub _ NaN = NaN"
| "num_sub PosInf PosInf = NaN"
| "num_sub NegInf NegInf = NaN"
| "num_sub PosInf _ = PosInf"
| "num_sub NegInf _ = NegInf"
| "num_sub (Fin a) PosInf = NegInf"
| "num_sub (Fin a) NegInf = PosInf"

subsection \<open>Binary64 rounding\<close>

text \<open>
  A finite binary64 value is \<open>m * 2\<^sup>k\<close> for integers with \<open>\<bar>m\<bar> < 2\<^sup>5\<^sup>3\<close> and
  \<open>-1074 \<le> k \<le> 971\<close>. The result of an arithmetic operation is the value nearest to
  the exact result, the one with the even \<open>m\<close> on a tie, and an infinity when that
  value is beyond the largest finite one.

  \<open>round_half_even\<close> is the integer nearest to a real, the even one on a tie.
  \<open>expo x\<close> is the exponent of the power of two at or below \<open>\<bar>x\<bar>\<close>, for
  \<open>\<bar>x\<bar> \<ge> 2\<^sup>-\<^sup>1\<^sup>2\<^sup>0\<^sup>0\<close> (a smaller \<open>x\<close> rounds to 0 whatever it is). \<open>r64 x\<close> is the
  nearest value at unbounded exponent: \<open>x\<close> rounded to a multiple of \<open>2\<^sup>k\<close>, where \<open>k\<close>
  is 52 below the exponent of \<open>x\<close> and at least -1074. \<open>round64\<close> is the binary64
  result.
\<close>

definition round_half_even :: "real \<Rightarrow> int" where
  "round_half_even y =
     (let f = \<lfloor>y\<rfloor>; d = y - of_int f
      in if d < 1 / 2 then f else if 1 / 2 < d then f + 1 else if even f then f else f + 1)"

definition expo :: "real \<Rightarrow> int" where
  "expo x = bitlen \<lfloor>\<bar>x\<bar> * 2 ^ 1200\<rfloor> - 1201"

definition r64 :: "real \<Rightarrow> real" where
  "r64 x =
     (let k = max (expo x - 52) (- 1074)
      in of_int (round_half_even (x / 2 powi k)) * 2 powi k)"

definition round64 :: "real \<Rightarrow> number" where
  "round64 x =
     (let y = r64 x
      in if 2 ^ 1024 \<le> y then PosInf else if y \<le> - (2 ^ 1024) then NegInf else Fin y)"

definition round_number :: "number \<Rightarrow> number" where
  "round_number x = (case x of Fin v \<Rightarrow> round64 v | _ \<Rightarrow> x)"

text \<open>The operators \<open>*\<close>, \<open>/\<close> and \<open>-\<close> of the machine: the exact result, rounded.\<close>

definition mul64 :: "number \<Rightarrow> number \<Rightarrow> number" where
  "mul64 a b = round_number (num_mul a b)"

definition div64 :: "number \<Rightarrow> number \<Rightarrow> number" where
  "div64 a b = round_number (num_div a b)"

definition sub64 :: "number \<Rightarrow> number \<Rightarrow> number" where
  "sub64 a b = round_number (num_sub a b)"

text \<open>\<open>Math.floor\<close>, \<open>Math.ceil\<close>, \<open>Number.isInteger\<close> and \<open>isNaN\<close>.\<close>

fun Math_floor :: "number \<Rightarrow> number" where
  "Math_floor (Fin a) = Fin (of_int \<lfloor>a\<rfloor>)"
| "Math_floor x = x"


fun Number_isInteger :: "number \<Rightarrow> bool" where
  "Number_isInteger (Fin a) = (of_int \<lfloor>a\<rfloor> = a)"
| "Number_isInteger _ = False"

definition isNaN :: "number \<Rightarrow> bool" where
  "isNaN x = (x = NaN)"

text \<open>An optional parameter: \<open>None\<close> is the omitted argument, which takes the default.\<close>

definition or_default :: "'a option \<Rightarrow> 'a \<Rightarrow> 'a" where
  "or_default arg d = (case arg of None \<Rightarrow> d | Some v \<Rightarrow> v)"

subsection \<open>Strings and decimal digits\<close>

text \<open>
  A string is a list of code units; a \<open>char\<close> stands for a code unit below 256.
\<close>

definition digit_char :: "nat \<Rightarrow> char" where
  "digit_char d = ''0123456789'' ! d"

fun digits :: "nat \<Rightarrow> string" where
  "digits n = (if n < 10 then [digit_char n] else digits (n div 10) @ [digit_char (n mod 10)])"

declare digits.simps [simp del]

text \<open>
  White space as \<open>\s\<close> and \<open>trim\<close> read it, below 256: tab, line feed, vertical tab,
  form feed, carriage return, space and the no-break space.
\<close>

definition is_space :: "char \<Rightarrow> bool" where
  "is_space c = (c \<in> set [CHR 0x09, CHR 0x0A, CHR 0x0B, CHR 0x0C, CHR 0x0D, CHR 0x20, CHR 0xA0])"

text \<open>\<open>s.replace(/\s/g, '')\<close> and \<open>s.trim()\<close>.\<close>

definition remove_spaces :: "string \<Rightarrow> string" where
  "remove_spaces s = filter (\<lambda>c. \<not> is_space c) s"

definition trim :: "string \<Rightarrow> string" where
  "trim s = rev (dropWhile is_space (rev (dropWhile is_space s)))"

definition ascii_upper :: string where
  "ascii_upper = ''ABCDEFGHIJKLMNOPQRSTUVWXYZ''"

definition ascii_lower :: string where
  "ascii_lower = ''abcdefghijklmnopqrstuvwxyz''"

definition ascii_digits :: string where
  "ascii_digits = ''0123456789''"

text \<open>The letters of Latin-1 that have a case pair inside Latin-1.\<close>

definition latin1_upper :: string where
  "latin1_upper =
     [CHR 0xC0, CHR 0xC1, CHR 0xC2, CHR 0xC3, CHR 0xC4, CHR 0xC5, CHR 0xC6, CHR 0xC7,
      CHR 0xC8, CHR 0xC9, CHR 0xCA, CHR 0xCB, CHR 0xCC, CHR 0xCD, CHR 0xCE, CHR 0xCF,
      CHR 0xD0, CHR 0xD1, CHR 0xD2, CHR 0xD3, CHR 0xD4, CHR 0xD5, CHR 0xD6, CHR 0xD8,
      CHR 0xD9, CHR 0xDA, CHR 0xDB, CHR 0xDC, CHR 0xDD, CHR 0xDE]"

definition latin1_lower :: string where
  "latin1_lower =
     [CHR 0xE0, CHR 0xE1, CHR 0xE2, CHR 0xE3, CHR 0xE4, CHR 0xE5, CHR 0xE6, CHR 0xE7,
      CHR 0xE8, CHR 0xE9, CHR 0xEA, CHR 0xEB, CHR 0xEC, CHR 0xED, CHR 0xEE, CHR 0xEF,
      CHR 0xF0, CHR 0xF1, CHR 0xF2, CHR 0xF3, CHR 0xF4, CHR 0xF5, CHR 0xF6, CHR 0xF8,
      CHR 0xF9, CHR 0xFA, CHR 0xFB, CHR 0xFC, CHR 0xFD, CHR 0xFE]"

definition toLowerCase :: "string \<Rightarrow> string" where
  "toLowerCase s =
     map (\<lambda>c. case map_of (zip (ascii_upper @ latin1_upper) (ascii_lower @ latin1_lower)) c of
                 Some l \<Rightarrow> l | None \<Rightarrow> c) s"

text \<open>
  \<open>toUpperCase\<close>: the sharp s (0xDF) becomes \<open>SS\<close>. The micro sign (0xB5) and the y
  with diaeresis (0xFF) have their capitals above 255; they are left as they are:
  neither capital is in a class of the library's patterns.
\<close>

definition toUpperCase :: "string \<Rightarrow> string" where
  "toUpperCase s =
     concat (map (\<lambda>c. if c = CHR 0xDF then ''SS''
                       else case map_of (zip (ascii_lower @ latin1_lower) (ascii_upper @ latin1_upper)) c of
                              Some u \<Rightarrow> [u] | None \<Rightarrow> [c]) s)"

text \<open>
  \<open>s.split(sep)\<close> for a separator of one character, and \<open>parts[i]\<close>, which is
  \<open>undefined\<close> (\<open>None\<close>) beyond the last part.
\<close>

fun split :: "char \<Rightarrow> string \<Rightarrow> string list" where
  "split sep [] = [[]]"
| "split sep (c # cs) =
     (if c = sep then [] # split sep cs
      else (case split sep cs of [] \<Rightarrow> [[c]] | p # ps \<Rightarrow> (c # p) # ps))"

definition at_index :: "'a list \<Rightarrow> nat \<Rightarrow> 'a option" where
  "at_index xs i = (if i < length xs then Some (xs ! i) else None)"

subsection \<open>Regular expressions\<close>

text \<open>
  The three patterns of the library are anchored at both ends and are sequences of
  character classes, each with a repetition count. \<open>Rep cs lo hi\<close> is the class of the
  characters \<open>cs\<close> repeated \<open>lo\<close> to \<open>hi\<close> times (\<open>None\<close>: no upper bound). A string
  matches when it splits into consecutive runs, one per piece.
\<close>

datatype piece = Rep string nat "nat option"

fun regex_test :: "piece list \<Rightarrow> string \<Rightarrow> bool" where
  "regex_test [] s = (s = [])"
| "regex_test (Rep cs lo hi # ps) s =
     (\<exists>n \<in> set [lo ..< Suc (length s)].
        (case hi of None \<Rightarrow> True | Some h \<Rightarrow> n \<le> h) \<and>
        (\<forall>c \<in> set (take n s). c \<in> set cs) \<and>
        regex_test ps (drop n s))"

declare regex_test.simps [simp del]

subsection \<open>What the runtime provides\<close>

text \<open>
  The library reads five things from the JavaScript runtime that are parameters of the
  model: the clock (\<open>new Date()\<close>); \<open>Date.parse\<close> on a string; \<open>Number::toString\<close>
  on a finite number (the shortest decimal that reads back as the same binary64 value);
  \<open>toLocaleString('en-US')\<close> on a finite number that is not a whole number of
  magnitude up to \<open>2\<^sup>5\<^sup>3\<close> (it is printed from that shortest decimal); and
  \<open>toLocaleString()\<close> in the default locale.
\<close>

record runtime =
  clock :: number
  dateParse :: "string \<Rightarrow> number"
  numberToString :: "real \<Rightarrow> string"
  enUSString :: "real \<Rightarrow> string"
  defaultLocaleString :: "number \<Rightarrow> string"

text \<open>\<open>ToString\<close> of a number, as a template literal applies it.\<close>

fun ToString :: "runtime \<Rightarrow> number \<Rightarrow> string" where
  "ToString rt (Fin a) = numberToString rt a"
| "ToString rt PosInf = ''Infinity''"
| "ToString rt NegInf = ''-Infinity''"
| "ToString rt NaN = ''NaN''"

text \<open>
  \<open>Number.prototype.toFixed(2)\<close> (ECMA-262): the sign is taken off first; a magnitude
  of \<open>10\<^sup>2\<^sup>1\<close> or more is printed by \<open>ToString\<close>; otherwise \<open>n\<close> is the integer
  nearest to \<open>100 * x\<close> (the larger one on a tie), its digits are padded with zeros to
  three at least, and the point goes before the last two.
\<close>

definition toFixed2 :: "runtime \<Rightarrow> number \<Rightarrow> string" where
  "toFixed2 rt x =
     (case x of
        Fin v \<Rightarrow>
          (let s = (if v < 0 then ''-'' else '''');
               a = \<bar>v\<bar>
           in if 10 ^ 21 \<le> a then s @ numberToString rt a
              else
                (let n = nat \<lfloor>a * 100 + 1 / 2\<rfloor>;
                     m = digits n;
                     m = (if length m \<le> 2 then replicate (3 - length m) (CHR ''0'') @ m else m);
                     k = length m
                 in s @ take (k - 2) m @ ''.'' @ drop (k - 2) m))
      | _ \<Rightarrow> ToString rt x)"

text \<open>
  \<open>parseFloat(x.toFixed(2))\<close>, the value read back from the text above: the binary64
  value nearest to \<open>n / 100\<close> with its sign in the fixed notation, and \<open>x\<close> itself
  where \<open>toFixed\<close> prints by \<open>ToString\<close> (which \<open>parseFloat\<close> reads back as the same
  number).
\<close>

definition parseFloat_toFixed2 :: "number \<Rightarrow> number" where
  "parseFloat_toFixed2 x =
     (case x of
        Fin v \<Rightarrow>
          (if 10 ^ 21 \<le> \<bar>v\<bar> then Fin v
           else
             (let n = \<lfloor>\<bar>v\<bar> * 100 + 1 / 2\<rfloor>
              in round64 ((if v < 0 then - 1 else 1) * (of_int n / 100))))
      | _ \<Rightarrow> x)"

text \<open>
  \<open>toLocaleString('en-US')\<close>: a whole number of magnitude up to \<open>2\<^sup>5\<^sup>3\<close> is printed
  by its digits in groups of three separated by commas, after its sign; any other
  finite number by the runtime. The infinity sign U+221E is written as its three UTF-8
  bytes.
\<close>

fun group3 :: "string \<Rightarrow> string" where
  "group3 ds =
     (if length ds \<le> 3 then ds
      else group3 (take (length ds - 3) ds) @ '','' @ drop (length ds - 3) ds)"

declare group3.simps [simp del]

definition toLocaleString_enUS :: "runtime \<Rightarrow> number \<Rightarrow> string" where
  "toLocaleString_enUS rt x =
     (case x of
        Fin v \<Rightarrow>
          (if of_int \<lfloor>v\<rfloor> = v \<and> \<bar>v\<bar> \<le> 2 ^ 53
           then (if v < 0 then ''-'' else []) @ group3 (digits (nat \<lfloor>\<bar>v\<bar>\<rfloor>))
           else enUSString rt v)
      | PosInf \<Rightarrow> [CHR 0xE2, CHR 0x88, CHR 0x9E]
      | NegInf \<Rightarrow> ''-'' @ [CHR 0xE2, CHR 0x88, CHR 0x9E]
      | NaN \<Rightarrow> ''NaN'')"

section \<open>DAR token utilities\<close>

datatype error = RangeError string

text \<open>The constant \<open>0.01\<close> of the source: the binary64 value nearest to it.\<close>

definition DEFAULT_DAR_EUR_RATE :: number where
  "DEFAULT_DAR_EUR_RATE = round64 (1 / 100)"

definition darToEur :: "number \<Rightarrow> number option \<Rightarrow> error + number" where
  "darToEur darAmount rate_arg =
     (let rate = or_default rate_arg DEFAULT_DAR_EUR_RATE
      in if num_lt darAmount (Fin 0) then Inl (RangeError ''DAR amount must be non-negative'')
         else Inr (parseFloat_toFixed2 (mul64 darAmount rate)))"

definition eurToDar :: "number \<Rightarrow> number option \<Rightarrow> error + number" where
  "eurToDar eurAmount rate_arg =
     (let rate = or_default rate_arg DEFAULT_DAR_EUR_RATE
      in if num_lt eurAmount (Fin 0) then Inl (RangeError ''EUR amount must be non-negative'')
         else Inr (Math_floor (div64 eurAmount rate)))"

record options =
  compact :: "bool option"
  showSymbol :: "bool option"

definition formatDar :: "runtime \<Rightarrow> number \<Rightarrow> options \<Rightarrow> string" where
  "formatDar rt amount opts =
     (let compact = or_default (compact opts) False;
          showSymbol = or_default (showSymbol opts) True;
          symbol = (if showSymbol then '' DAR'' else '''')
      in if compact \<and> num_ge amount (Fin 1000000)
           then toFixed2 rt (div64 amount (Fin 1000000)) @ ''M'' @ symbol
         else if compact \<and> num_ge amount (Fin 1000)
           then toFixed2 rt (div64 amount (Fin 1000)) @ ''K'' @ symbol
         else toLocaleString_enUS rt amount @ symbol)"

definition tierPercentages :: "number \<Rightarrow> number option" where
  "tierPercentages tier =
     (if tier = Fin 1 then Some (Fin 1)
      else if tier = Fin 2 then Some (round64 (30 / 100))
      else if tier = Fin 3 then Some (round64 (10 / 100))
      else None)"

definition calcReferralReward :: "number \<Rightarrow> number \<Rightarrow> number" where
  "calcReferralReward tier baseDar =
     (let percentage = or_default (tierPercentages tier) (Fin 0)
      in Math_floor (mul64 baseDar percentage))"


record budget =
  minBudget :: number
  recommendedBudget :: number
  maxBudget :: number


section \<open>Validation utilities\<close>

record ValidationResult =
  valid :: bool
  error :: "string option"

definition ok :: ValidationResult where
  "ok = \<lparr> valid = True, error = None \<rparr>"

definition invalid :: "string \<Rightarrow> ValidationResult" where
  "invalid msg = \<lparr> valid = False, error = Some msg \<rparr>"

text \<open>\<open>/^[a-zA-Z0-9._%+-]+@[a-zA-Z0-9.-]+\.[a-zA-Z]{2,}$/\<close>\<close>

definition emailRegex :: "piece list" where
  "emailRegex =
     [Rep (ascii_lower @ ascii_upper @ ascii_digits @ ''._%+-'') 1 None,
      Rep ''@'' 1 (Some 1),
      Rep (ascii_lower @ ascii_upper @ ascii_digits @ ''.-'') 1 None,
      Rep ''.'' 1 (Some 1),
      Rep (ascii_lower @ ascii_upper) 2 None]"

definition freeProviders :: "string list" where
  "freeProviders =
     [''gmail.com'', ''yahoo.com'', ''hotmail.com'', ''outlook.com'',
      ''live.com'', ''icloud.com'', ''protonmail.com'', ''yandex.ru'',
      ''mail.ru'', ''aol.com'', ''gmx.com'', ''zoho.com'']"

definition validateBusinessEmail :: "string \<Rightarrow> bool option \<Rightarrow> ValidationResult" where
  "validateBusinessEmail email allowFreeProviders_arg =
     (let allowFreeProviders = or_default allowFreeProviders_arg False
      in if email = [] \<or> trim email = [] then invalid ''Email is required''
         else if \<not> regex_test emailRegex email then invalid ''Invalid email format''
         else if \<not> allowFreeProviders \<and>
                 (case at_index (split (CHR ''@'') (toLowerCase email)) 1 of
                    None \<Rightarrow> False
                  | Some domain \<Rightarrow> domain \<in> set freeProviders)
           then invalid ''Please use your business email address''
         else ok)"

text \<open>\<open>/^\d{14}$/\<close>\<close>

definition siretRegex :: "piece list" where
  "siretRegex = [Rep ascii_digits 14 (Some 14)]"

text \<open>The value of a digit character: its code less that of \<open>0\<close>.\<close>

definition digit_value :: "char \<Rightarrow> nat" where
  "digit_value c = of_char c - 48"

text \<open>
  \<open>parseInt(cleaned[i], 10)\<close>: the value of the digit at \<open>i\<close>, and NaN (\<open>None\<close>) where
  there is no character or it is not a digit.
\<close>

definition parseInt_at :: "string \<Rightarrow> nat \<Rightarrow> nat option" where
  "parseInt_at s i =
     (if i < length s \<and> s ! i \<in> set ascii_digits then Some (digit_value (s ! i)) else None)"

text \<open>The loop of the checksum; the sum is \<open>None\<close> once it is NaN.\<close>

function luhn_loop :: "string \<Rightarrow> nat \<Rightarrow> nat option \<Rightarrow> nat option" where
  "luhn_loop cleaned i sum_acc =
     (if i < 14 then
        (let digit = parseInt_at cleaned i;
             digit = (if i mod 2 = 0
                      then map_option (\<lambda>d. let d = d * 2 in if d > 9 then d - 9 else d) digit
                      else digit)
         in luhn_loop cleaned (i + 1)
              (case (sum_acc, digit) of (Some s, Some d) \<Rightarrow> Some (s + d) | _ \<Rightarrow> None))
      else sum_acc)"
  by pat_completeness auto
termination
  by (relation "measure (\<lambda>(cleaned, i, sum_acc). 14 - i)") auto

declare luhn_loop.simps [simp del]

definition validateSiret :: "string \<Rightarrow> ValidationResult" where
  "validateSiret siret =
     (let cleaned = remove_spaces siret
      in if \<not> regex_test siretRegex cleaned then invalid ''SIRET must be 14 digits''
         else
           (let sum_acc = luhn_loop cleaned 0 (Some 0)
            in if (case sum_acc of None \<Rightarrow> True | Some s \<Rightarrow> s mod 10 \<noteq> 0)
               then invalid ''Invalid SIRET checksum''
               else ok))"

text \<open>\<open>/^FR[A-Z0-9]{2}\d{9}$/\<close>\<close>

definition vatRegex :: "piece list" where
  "vatRegex =
     [Rep ''F'' 1 (Some 1), Rep ''R'' 1 (Some 1),
      Rep (ascii_upper @ ascii_digits) 2 (Some 2),
      Rep ascii_digits 9 (Some 9)]"

definition validateFrenchVAT :: "string \<Rightarrow> ValidationResult" where
  "validateFrenchVAT vat =
     (let cleaned = toUpperCase (remove_spaces vat)
      in if \<not> regex_test vatRegex cleaned
         then invalid ''Invalid French VAT format. Expected: FR + 2 chars + 9 digits (e.g. FR12345678901)''
         else ok)"

text \<open>
  A campaign date is a \<open>Date\<close> object, given by its time value (milliseconds since the
  epoch, NaN for an invalid date), or a string. \<open>new_Date\<close> is the time value of
  \<open>new Date(arg)\<close>: a copy of the object's, or what \<open>Date.parse\<close> reads.
\<close>

datatype date_arg = DateObj number | DateStr string

definition new_Date :: "runtime \<Rightarrow> date_arg \<Rightarrow> number" where
  "new_Date rt arg = (case arg of DateObj t \<Rightarrow> t | DateStr s \<Rightarrow> dateParse rt s)"

definition validateCampaignDates ::
  "runtime \<Rightarrow> date_arg \<Rightarrow> date_arg \<Rightarrow> number option \<Rightarrow> number option \<Rightarrow> ValidationResult" where
  "validateCampaignDates rt startsAt endsAt minDurationDays_arg maxDurationDays_arg =
     (let minDurationDays = or_default minDurationDays_arg (Fin 1);
          maxDurationDays = or_default maxDurationDays_arg (Fin 365);
          start = new_Date rt startsAt;
          end = new_Date rt endsAt;
          now = clock rt
      in if isNaN start then invalid ''Invalid start date''
         else if isNaN end then invalid ''Invalid end date''
         else if num_lt start now then invalid ''Start date cannot be in the past''
         else if num_le end start then invalid ''End date must be after start date''
         else
           (let durationDays = div64 (sub64 end start) (Fin (1000 * 60 * 60 * 24))
            in if num_lt durationDays minDurationDays
                 then invalid (''Campaign must run for at least '' @ ToString rt minDurationDays @ '' day(s)'')
               else if num_gt durationDays maxDurationDays
                 then invalid (''Campaign cannot exceed '' @ ToString rt maxDurationDays @ '' days'')
               else ok))"

definition validateDarBudget ::
  "runtime \<Rightarrow> number \<Rightarrow> number option \<Rightarrow> number option \<Rightarrow> ValidationResult" where
  "validateDarBudget rt amount minAmount_arg maxAmount_arg =
     (let minAmount = or_default minAmount_arg (Fin 100);
          maxAmount = or_default maxAmount_arg (Fin 10000000)
      in if \<not> Number_isInteger amount then invalid ''DAR amount must be a whole number''
         else if num_lt amount minAmount
           then invalid (''Minimum budget is '' @ ToString rt minAmount @ '' DAR'')
         else if num_gt amount maxAmount
           then invalid (''Maximum budget is '' @ defaultLocaleString rt maxAmount @ '' DAR'')
         else ok)"

section \<open>Notions of the specification\<close>

text \<open>
  The round trip \<open>eurToDar(darToEur(a, r), r)\<close> of the specification: an exception of
  the first call ends it.
\<close>

definition roundTrip :: "number \<Rightarrow> number option \<Rightarrow> error + number" where
  "roundTrip a rate_arg =
     (case darToEur a rate_arg of Inl e \<Rightarrow> Inl e | Inr eur \<Rightarrow> eurToDar eur rate_arg)"

text \<open>
  The checksum of the specification: the digit at an even position (counted from 0) is
  doubled, less 9 when the double exceeds 9; the adjusted digits of the 14 positions
  are added up.
\<close>

definition luhn_adjust :: "nat \<Rightarrow> nat \<Rightarrow> nat" where
  "luhn_adjust i d = (if even i then (if 2 * d > 9 then 2 * d - 9 else 2 * d) else d)"

definition siret_checksum :: "string \<Rightarrow> nat" where
  "siret_checksum s = (\<Sum>i = 0..<14. luhn_adjust i (digit_value (s ! i)))"

definition fourteen_digits :: "string \<Rightarrow> bool" where
  "fourteen_digits s = (length s = 14 \<and> (\<forall>c \<in> set s. c \<in> set ascii_digits))"

text \<open>The domain of an address: the text after its first \<open>@\<close>.\<close>

definition domain_part :: "string \<Rightarrow> string" where
  "domain_part email = drop 1 (dropWhile (\<lambda>c. c \<noteq> CHR ''@'') email)"

text \<open>
  Checks in a fixed order: each is a condition that fails the input and the message it
  fails with; the result is the message of the first check that fails.
\<close>

fun first_failure :: "(bool \<times> string) list \<Rightarrow> ValidationResult" where
  "first_failure [] = ok"
| "first_failure ((failed, msg) # checks) = (if failed then invalid msg else first_failure checks)"

text \<open>The invariant of a validation outcome: an error is present exactly when it is not valid.\<close>

definition error_iff_invalid :: "ValidationResult \<Rightarrow> bool" where
  "error_iff_invalid r = ((error r \<noteq> None) = (\<not> valid r))"

text \<open>
  A runtime for the examples: its clock reads \<open>now\<close>, it parses no date string, and
  it prints the whole part of a number, by its digits or, for a locale, in groups of
  three.
\<close>

definition runtime_at :: "number \<Rightarrow> runtime" where
  "runtime_at now =
     \<lparr> clock = now, dateParse = (\<lambda>s. NaN), numberToString = (\<lambda>x. digits (nat \<lfloor>x\<rfloor>)),
       enUSString = (\<lambda>x. group3 (digits (nat \<lfloor>x\<rfloor>))),
       defaultLocaleString =
         (\<lambda>x. case x of Fin v \<Rightarrow> group3 (digits (nat \<lfloor>v\<rfloor>)) | _ \<Rightarrow> ''NaN'') \<rparr>"

text \<open>
  A non-negative number to two decimal places: the hundredths nearest to it, printed as
  the whole part, a point and two digits.
\<close>

definition two_decimals :: "real \<Rightarrow> string" where
  "two_decimals x =
     (let q = nat \<lfloor>x * 100 + 1 / 2\<rfloor>
      in digits (q div 100) @ ''.'' @ [digit_char (q mod 100 div 10), digit_char (q mod 10)])"

text \<open>A whole number with a comma before every group of three digits.\<close>

fun grouped :: "nat \<Rightarrow> string" where
  "grouped n =
     (if n < 1000 then digits n
      else grouped (n div 1000) @ '','' @
           [digit_char (n mod 1000 div 100), digit_char (n mod 100 div 10), digit_char (n mod 10)])"

declare grouped.simps [simp del]

section \<open>Properties\<close>

subsection \<open>Binary64 rounding\<close>

text \<open>The nearest integer is within a half, and is the only integer strictly within a half.\<close>

lemma round_half_even_close: "\<bar>of_int (round_half_even y) - y\<bar> \<le> 1 / 2"
proof -
  have "of_int \<lfloor>y\<rfloor> \<le> y" "y < of_int \<lfloor>y\<rfloor> + 1" by linarith+
  then show ?thesis by (auto simp: round_half_even_def Let_def)
qed

lemma round_half_even_int [simp]: "round_half_even (of_int m) = m"
  by (simp add: round_half_even_def)

lemma round_half_even_nonneg: "0 \<le> y \<Longrightarrow> 0 \<le> round_half_even y"
  by (auto simp: round_half_even_def Let_def)

text \<open>\<open>expo\<close> is the exponent of the power of two at or below the magnitude.\<close>

lemma expo_eq:
  assumes "2 powi e \<le> \<bar>x\<bar>" and "\<bar>x\<bar> < 2 powi (e + 1)" and "- 1200 \<le> e"
  shows "expo x = e"
proof -
  define S :: real where "S = 2 powi 1200"
  define n where "n = \<lfloor>\<bar>x\<bar> * S\<rfloor>"
  have S: "S = 2 ^ 1200" "0 < S" by (simp_all add: S_def)
  have ex: "expo x = bitlen n - 1201" by (simp only: expo_def n_def S(1))
  have p: "(2::real) powi (e + 1200) = 2 powi e * S"
    unfolding S_def by (rule power_int_add) simp
  have q: "(2::real) powi (e + 1201) = 2 powi (e + 1) * S"
  proof -
    have "e + 1201 = (e + 1) + 1200" by simp
    then have "(2::real) powi (e + 1201) = 2 powi ((e + 1) + 1200)" by (rule arg_cong)
    also have "\<dots> = 2 powi (e + 1) * 2 powi 1200" by (rule power_int_add) simp
    finally show ?thesis by (simp only: S_def)
  qed
  have a: "(2::real) ^ nat (e + 1200) = 2 powi (e + 1200)" "(2::real) ^ nat (e + 1201) = 2 powi (e + 1201)"
    using assms(3) by (simp_all add: power_int_def)
  have "real_of_int (2 ^ nat (e + 1200)) = 2 powi e * S" by (simp only: of_int_power of_int_numeral a p)
  also have "\<dots> \<le> \<bar>x\<bar> * S" using assms(1) S(2) by (rule mult_right_mono [OF _ less_imp_le])
  finally have "2 ^ nat (e + 1200) \<le> n" unfolding n_def by (rule le_floor_iff [THEN iffD2])
  moreover have "nat (e + 1201) - 1 = nat (e + 1200)" using assms(3) by simp
  ultimately have lo: "e + 1201 \<le> bitlen n" by (simp add: bitlen_ge_iff_power)
  have "real_of_int n \<le> \<bar>x\<bar> * S" unfolding n_def by (rule of_int_floor_le)
  also have "\<dots> < 2 powi (e + 1) * S" using assms(2) S(2) by (rule mult_strict_right_mono)
  also have "\<dots> = real_of_int (2 ^ nat (e + 1201))" by (simp only: of_int_power of_int_numeral a q)
  finally have "n < 2 ^ nat (e + 1201)" by (simp only: of_int_less_iff)
  then have "bitlen n \<le> e + 1201" using assms(3) by (simp add: bitlen_le_iff_power)
  with lo show ?thesis by (simp only: ex)
qed

lemma expo_lower:
  assumes "- 1074 < expo x - 52"
  shows "2 powi expo x \<le> \<bar>x\<bar>"
proof -
  define S :: real where "S = 2 powi 1200"
  define n where "n = \<lfloor>\<bar>x\<bar> * S\<rfloor>"
  have S: "S = 2 ^ 1200" "0 < S" by (simp_all add: S_def)
  have ex: "expo x = bitlen n - 1201" by (simp only: expo_def n_def S(1))
  with assms have b: "0 < bitlen n" by simp
  then have "0 < n" using bitlen_eq_zero_iff [of n] by (cases "0 < n") auto
  then have "2 ^ nat (bitlen n - 1) \<le> n" using bitlen_bounds by blast
  then have "real_of_int (2 ^ nat (bitlen n - 1)) \<le> real_of_int n" by (simp only: of_int_le_iff)
  also have "\<dots> \<le> \<bar>x\<bar> * S" unfolding n_def by (rule of_int_floor_le)
  finally have le: "(2::real) ^ nat (bitlen n - 1) \<le> \<bar>x\<bar> * S" by simp
  have "bitlen n - 1 = expo x + 1200" using ex by simp
  moreover have "0 \<le> expo x + 1200" using assms by simp
  ultimately have "(2::real) ^ nat (bitlen n - 1) = 2 powi (expo x + 1200)" by (simp add: power_int_def)
  also have "\<dots> = 2 powi expo x * S" unfolding S_def by (rule power_int_add) simp
  finally have "2 powi expo x * S \<le> \<bar>x\<bar> * S" using le by simp
  then show ?thesis using S(2) by (simp only: mult_le_cancel_right_pos)
qed

text \<open>Rounding moves a value by at most one part in \<open>2\<^sup>5\<^sup>3\<close>, or by \<open>2\<^sup>-\<^sup>1\<^sup>0\<^sup>7\<^sup>5\<close> near zero.\<close>

lemma r64_error: "\<bar>r64 x - x\<bar> \<le> \<bar>x\<bar> / 2 ^ 53 + 1 / 2 ^ 1075"
proof -
  define k where "k = max (expo x - 52) (- 1074)"
  define P :: real where "P = 2 powi k"
  define y where "y = x / P"
  have P: "0 < P" by (simp add: P_def)
  have r: "r64 x = of_int (round_half_even y) * P" by (simp add: r64_def Let_def k_def P_def y_def)
  have "r64 x - x = (of_int (round_half_even y) - y) * P" using P by (simp add: r y_def algebra_simps)
  then have "\<bar>r64 x - x\<bar> = \<bar>of_int (round_half_even y) - y\<bar> * P" using P by (simp add: abs_mult)
  also have "\<dots> \<le> 1 / 2 * P" using round_half_even_close [of y] P by (intro mult_right_mono) simp_all
  finally have h: "\<bar>r64 x - x\<bar> \<le> P / 2" by simp
  show ?thesis
  proof (cases "- 1074 < expo x - 52")
    case True
    then have k: "k = expo x - 52" by (simp add: k_def)
    have "(2::real) powi expo x = 2 powi (k + 52)" by (simp add: k)
    also have "\<dots> = P * 2 ^ 52" unfolding P_def by (subst power_int_add) simp_all
    finally have "P * 2 ^ 52 \<le> \<bar>x\<bar>" using expo_lower [OF True] by simp
    then have "P / 2 \<le> \<bar>x\<bar> / 2 ^ 53" by (simp add: field_simps)
    moreover have "(0::real) \<le> 1 / 2 ^ 1075" by simp
    ultimately show ?thesis using h by linarith
  next
    case False
    then have "k = - 1074" by (simp add: k_def)
    then have "P / 2 = 1 / 2 ^ 1075" by (simp add: P_def power_int_minus field_simps)
    with h have "\<bar>r64 x - x\<bar> \<le> 1 / 2 ^ 1075" by simp
    moreover have "0 \<le> \<bar>x\<bar> / 2 ^ 53" by simp
    ultimately show ?thesis by linarith
  qed
qed

lemma r64_nonneg: "0 \<le> x \<Longrightarrow> 0 \<le> r64 x"
  by (simp add: r64_def Let_def round_half_even_nonneg)

lemma expo_le:
  assumes "\<bar>x\<bar> < 2 powi (e + 1)" and "- 1201 \<le> e"
  shows "expo x \<le> e"
proof -
  define S :: real where "S = 2 powi 1200"
  define n where "n = \<lfloor>\<bar>x\<bar> * S\<rfloor>"
  have S: "S = 2 ^ 1200" "0 < S" by (simp_all add: S_def)
  have ex: "expo x = bitlen n - 1201" by (simp only: expo_def n_def S(1))
  have q: "(2::real) powi (e + 1201) = 2 powi (e + 1) * S"
  proof -
    have "e + 1201 = (e + 1) + 1200" by simp
    then have "(2::real) powi (e + 1201) = 2 powi ((e + 1) + 1200)" by (rule arg_cong)
    also have "\<dots> = 2 powi (e + 1) * 2 powi 1200" by (rule power_int_add) simp
    finally show ?thesis by (simp only: S_def)
  qed
  have a: "(2::real) ^ nat (e + 1201) = 2 powi (e + 1201)"
    using assms(2) by (simp add: power_int_def)
  have "real_of_int n \<le> \<bar>x\<bar> * S" unfolding n_def by (rule of_int_floor_le)
  also have "\<dots> < 2 powi (e + 1) * S" using assms(1) S(2) by (rule mult_strict_right_mono)
  also have "\<dots> = real_of_int (2 ^ nat (e + 1201))" by (simp only: of_int_power of_int_numeral a q)
  finally have "n < 2 ^ nat (e + 1201)" by (simp only: of_int_less_iff)
  then have "bitlen n \<le> e + 1201" using assms(2) by (simp add: bitlen_le_iff_power)
  then show ?thesis by (simp only: ex)
qed

text \<open>Rounding a concrete value: any integer strictly within half a unit is the nearest.\<close>

lemma round_half_even_near:
  assumes "\<bar>y - of_int m\<bar> < 1 / 2"
  shows "round_half_even y = m"
proof -
  have c: "\<bar>of_int (round_half_even y) - y\<bar> \<le> 1 / 2" by (rule round_half_even_close)
  have "\<bar>real_of_int (round_half_even y) - real_of_int m\<bar> < 1" using assms c by linarith
  then have "\<bar>real_of_int (round_half_even y - m)\<bar> < 1" by simp
  then have "\<bar>round_half_even y - m\<bar> < 1" by (simp only: of_int_abs [symmetric] of_int_less_1_iff)
  then show ?thesis by simp
qed

lemma r64_near:
  assumes "2 powi (k + 52) \<le> \<bar>x\<bar>" and "\<bar>x\<bar> < 2 powi (k + 53)" and "- 1074 \<le> k"
    and "\<bar>x / 2 powi k - of_int m\<bar> < 1 / 2"
  shows "r64 x = of_int m * 2 powi k"
proof -
  have "expo x = k + 52" using assms(1,2,3) by (intro expo_eq) (simp_all add: add.assoc)
  then have "max (expo x - 52) (- 1074) = k" using assms(3) by simp
  then show ?thesis using round_half_even_near [OF assms(4)] by (simp add: r64_def Let_def)
qed

text \<open>A binary64 value rounds to itself.\<close>

lemma r64_dyadic:
  assumes "\<bar>m\<bar> < 2 ^ 53" and "- 1074 \<le> j"
  shows "r64 (of_int m * 2 powi j) = of_int m * 2 powi j"
proof -
  define x :: real where "x = of_int m * 2 powi j"
  define k where "k = max (expo x - 52) (- 1074)"
  have "\<bar>x\<bar> = of_int \<bar>m\<bar> * 2 powi j" by (simp add: x_def abs_mult)
  also have "\<dots> < 2 ^ 53 * 2 powi j"
  proof (rule mult_strict_right_mono)
    have "real_of_int \<bar>m\<bar> < real_of_int (2 ^ 53)" using assms(1) by (simp only: of_int_less_iff)
    then show "real_of_int \<bar>m\<bar> < 2 ^ 53" by simp
  qed simp
  also have "\<dots> = 2 powi (j + 52 + 1)"
  proof -
    have "(2::real) powi (j + 52 + 1) = 2 powi (53 + j)" by (simp add: add.commute add.left_commute)
    also have "\<dots> = 2 powi 53 * 2 powi j" by (rule power_int_add) simp
    finally show ?thesis by simp
  qed
  finally have "expo x \<le> j + 52" using assms(2) by (intro expo_le) simp_all
  then have kj: "k \<le> j" using assms(2) by (simp add: k_def)
  have "(2::real) powi j = 2 powi (j - k) * 2 powi k"
    using power_int_add [of "2::real" "j - k" k] by simp
  moreover have "(2::real) powi (j - k) = 2 ^ nat (j - k)" using kj by (simp add: power_int_def)
  ultimately have "x = of_int (m * 2 ^ nat (j - k)) * 2 powi k" by (simp add: x_def)
  then have "x / 2 powi k = of_int (m * 2 ^ nat (j - k))" by simp
  then have "round_half_even (x / 2 powi k) = m * 2 ^ nat (j - k)" by (simp only: round_half_even_int)
  then have "r64 x = of_int (m * 2 ^ nat (j - k)) * 2 powi k"
    by (simp add: r64_def Let_def k_def)
  also have "\<dots> = x" using \<open>x = of_int (m * 2 ^ nat (j - k)) * 2 powi k\<close> by simp
  finally show ?thesis by (simp only: x_def)
qed

lemma r64_int: "\<bar>m\<bar> < 2 ^ 53 \<Longrightarrow> r64 (of_int m) = of_int m"
  using r64_dyadic [of m 0] by simp

text \<open>The machine operators on finite values, and rounding where it changes nothing.\<close>

lemma round64_Fin: "\<bar>r64 x\<bar> < 2 ^ 1024 \<Longrightarrow> round64 x = Fin (r64 x)"
  by (simp add: round64_def Let_def abs_less_iff)

lemma round64_int: "\<bar>m\<bar> < 2 ^ 53 \<Longrightarrow> round64 (of_int m) = Fin (of_int m)"
proof -
  assume m: "\<bar>m\<bar> < 2 ^ 53"
  then have "\<bar>m\<bar> < 2 ^ 1024" by simp
  then have "real_of_int \<bar>m\<bar> < real_of_int (2 ^ 1024)" by (simp only: of_int_less_iff)
  then have "\<bar>real_of_int m\<bar> < 2 ^ 1024" by simp
  then show ?thesis using r64_int [OF m] by (simp add: round64_Fin)
qed

lemma round64_numeral: "(numeral w :: int) < 2 ^ 53 \<Longrightarrow> round64 (numeral w) = Fin (numeral w)"
  using round64_int [of "numeral w"] by simp

lemma round64_zero_one: "round64 0 = Fin 0" "round64 1 = Fin 1"
  using round64_int [of 0] round64_int [of 1] by simp_all

lemma mul64_Fin: "mul64 (Fin a) (Fin b) = round64 (a * b)"
  by (simp add: mul64_def round_number_def)

lemma div64_Fin: "b \<noteq> 0 \<Longrightarrow> div64 (Fin a) (Fin b) = round64 (a / b)"
  by (simp add: div64_def round_number_def)

lemma sub64_Fin: "sub64 (Fin a) (Fin b) = round64 (a - b)"
  by (simp add: sub64_def round_number_def)

text \<open>The constant 0.01 in binary64.\<close>

lemma r64_hundredth: "r64 (1 / 100) = 5764607523034235 / 2 ^ 59"
  using r64_near [of "- 59" "1 / 100" 5764607523034235] by (simp add: power_int_minus)

lemma default_rate: "DEFAULT_DAR_EUR_RATE = Fin (5764607523034235 / 2 ^ 59)"
  by (simp add: DEFAULT_DAR_EUR_RATE_def round64_Fin r64_hundredth)

subsection \<open>Campaign budget\<close>




subsection \<open>Currency conversion\<close>

text \<open>
  C4: \<open>darToEur\<close> and \<open>eurToDar\<close> raise exactly when the amount is negative, whatever
  the rate, and return a number for every amount that is at least 0. The other exported
  functions have no raising branch: their models return plain values.
\<close>

theorem conversion_raises_iff_negative:
  "(isl (darToEur amount rate) \<longleftrightarrow> num_lt amount (Fin 0)) \<and>
   (isl (eurToDar amount rate) \<longleftrightarrow> num_lt amount (Fin 0)) \<and>
   (num_ge amount (Fin 0) \<longrightarrow>
      (\<exists>v. darToEur amount rate = Inr v) \<and> (\<exists>v. eurToDar amount rate = Inr v))"
  by (cases amount) (auto simp: darToEur_def eurToDar_def Let_def num_ge_def)

theorem conversion_raises_iff_negative_witness:
  "num_ge (Fin 1000) (Fin 0) \<and> darToEur (Fin 1000) None = Inr (Fin 10) \<and>
   eurToDar (Fin 10) None = Inr (Fin 1000) \<and>
   isl (darToEur (Fin (- 1)) None) \<and> isl (eurToDar (Fin (- 1)) None)"
proof -
  have neg: "num_lt (Fin (- 1)) (Fin 0)" and pos: "num_ge (Fin 1000) (Fin 0)"
    by (simp_all add: num_ge_def)
  from conversion_raises_iff_negative [of "Fin (- 1)" None] neg
  have "isl (darToEur (Fin (- 1)) None) \<and> isl (eurToDar (Fin (- 1)) None)" by blast
  moreover have "darToEur (Fin 1000) None = Inr (Fin 10)"
  proof -
    have "r64 (1000 * (5764607523034235 / 2 ^ 59)) = 10"
      using r64_near [of "- 49" "1000 * (5764607523034235 / 2 ^ 59)" "10 * 2 ^ 49"]
      by (simp add: power_int_minus)
    then have "mul64 (Fin 1000) DEFAULT_DAR_EUR_RATE = Fin 10"
      by (simp add: default_rate mul64_Fin round64_Fin)
    then show ?thesis
      by (simp add: darToEur_def or_default_def parseFloat_toFixed2_def round64_numeral)
  qed
  moreover have "eurToDar (Fin 10) None = Inr (Fin 1000)"
  proof -
    have "r64 (10 / (5764607523034235 / 2 ^ 59)) = 1000"
      using r64_near [of "- 43" "10 / (5764607523034235 / 2 ^ 59)" "1000 * 2 ^ 43"]
      by (simp add: power_int_minus)
    then have "div64 (Fin 10) DEFAULT_DAR_EUR_RATE = Fin 1000"
      by (simp add: default_rate div64_Fin round64_Fin)
    then show ?thesis by (simp add: eurToDar_def or_default_def)
  qed
  ultimately show ?thesis using pos by blast
qed

text \<open>
  C5, as stated: for every non-negative amount and every non-negative rate the round
  trip differs from the amount by a bounded error, for example by at most
  \<open>0.005 / r + 1\<close>. At the rate 0 it is not a number at all: \<open>darToEur(5, 0)\<close> is 0 and
  \<open>eurToDar(0, 0)\<close> is \<open>Math.floor(0 / 0)\<close>, NaN. At the default rate the amount
  14073909404791992 comes back as 14073909404791994, which is 2 away where
  \<open>0.005 / r + 1\<close> is about 1.5: the product is rounded to binary64 before it is
  rounded to two decimals. And the amount \<open>2\<^sup>1\<^sup>0\<^sup>2\<^sup>3\<close> at the rate 2 comes back as
  \<open>Infinity\<close>, the product being beyond the range of binary64.
\<close>

theorem roundTrip_counterexample:
  "roundTrip (Fin 5) (Some (Fin 0)) = Inr NaN \<and>
   \<not> (\<exists>d B. roundTrip (Fin 5) (Some (Fin 0)) = Inr (Fin d) \<and> \<bar>d - 5\<bar> \<le> B) \<and>
   DEFAULT_DAR_EUR_RATE = Fin (5764607523034235 / 2 ^ 59) \<and>
   roundTrip (Fin 14073909404791992) None = Inr (Fin 14073909404791994) \<and>
   \<not> (\<exists>d. roundTrip (Fin 14073909404791992) None = Inr (Fin d) \<and>
         \<bar>d - 14073909404791992\<bar> \<le> (5 / 1000) / (5764607523034235 / 2 ^ 59) + 1) \<and>
   roundTrip (Fin (2 ^ 1023)) (Some (Fin 2)) = Inr PosInf"
proof -
  have zero: "roundTrip (Fin 5) (Some (Fin 0)) = Inr NaN"
    by (simp add: roundTrip_def darToEur_def eurToDar_def or_default_def parseFloat_toFixed2_def
        mul64_Fin round64_zero_one div64_def round_number_def)
  have p: "r64 (14073909404791992 * (5764607523034235 / 2 ^ 59)) = 4503651009533438 / 2 ^ 5"
    using r64_near [of "- 5" "14073909404791992 * (5764607523034235 / 2 ^ 59)" 4503651009533438]
    by (simp add: power_int_minus)
  have e: "r64 (14073909404791994 / 100) = 4503651009533438 / 2 ^ 5"
    using r64_near [of "- 5" "14073909404791994 / 100" 4503651009533438]
    by (simp add: power_int_minus)
  have q: "r64 (4503651009533438 / 2 ^ 5 / (5764607523034235 / 2 ^ 59)) = 14073909404791994"
    using r64_near [of 1 "4503651009533438 / 2 ^ 5 / (5764607523034235 / 2 ^ 59)" 7036954702395997]
    by simp
  have "mul64 (Fin 14073909404791992) DEFAULT_DAR_EUR_RATE = Fin (4503651009533438 / 2 ^ 5)"
    using p by (simp add: default_rate mul64_Fin round64_Fin)
  moreover have "parseFloat_toFixed2 (Fin (4503651009533438 / 2 ^ 5)) = Fin (4503651009533438 / 2 ^ 5)"
    using e by (simp add: parseFloat_toFixed2_def round64_Fin)
  moreover have "div64 (Fin (4503651009533438 / 2 ^ 5)) DEFAULT_DAR_EUR_RATE = Fin 14073909404791994"
    using q by (simp add: default_rate div64_Fin round64_Fin)
  ultimately have big: "roundTrip (Fin 14073909404791992) None = Inr (Fin 14073909404791994)"
    by (simp add: roundTrip_def darToEur_def eurToDar_def or_default_def)
  have "r64 (of_int 1 * 2 powi 1024) = of_int 1 * 2 powi 1024" by (rule r64_dyadic) simp_all
  then have "r64 (2 ^ 1024) = 2 ^ 1024" by simp
  then have over: "mul64 (Fin (2 ^ 1023)) (Fin 2) = PosInf"
    by (simp add: mul64_Fin round64_def)
  have "roundTrip (Fin x) (Some (Fin 2)) = Inr PosInf"
    if "0 \<le> x" and "mul64 (Fin x) (Fin 2) = PosInf" for x
    using that
    by (simp add: roundTrip_def darToEur_def eurToDar_def or_default_def parseFloat_toFixed2_def
        div64_def round_number_def)
  moreover have "(0::real) \<le> 2 ^ 1023" by simp
  ultimately have inf: "roundTrip (Fin (2 ^ 1023)) (Some (Fin 2)) = Inr PosInf"
    using over by blast
  have nozero: "\<not> (\<exists>d B. roundTrip (Fin 5) (Some (Fin 0)) = Inr (Fin d) \<and> \<bar>d - 5\<bar> \<le> B)"
    by (simp add: zero)
  have nobig: "\<not> (\<exists>d. roundTrip (Fin 14073909404791992) None = Inr (Fin d) \<and>
         \<bar>d - 14073909404791992\<bar> \<le> (5 / 1000) / (5764607523034235 / 2 ^ 59) + 1)"
    by (simp add: big)
  from zero nozero default_rate big nobig inf show ?thesis by (intro conjI)
qed

text \<open>Rounding to two decimals moves a non-negative value by at most 0.005.\<close>

lemma round2_close:
  fixes x :: real
  assumes "0 \<le> x"
  shows "\<bar>of_int \<lfloor>x * 100 + 1 / 2\<rfloor> / 100 - x\<bar> \<le> 5 / 1000"
proof -
  define n :: int where "n = \<lfloor>x * 100 + 1 / 2\<rfloor>"
  have "of_int n \<le> x * 100 + 1 / 2" "x * 100 + 1 / 2 < of_int n + 1"
    unfolding n_def by linarith+
  then have "of_int n / 100 - x \<le> 5 / 1000 \<and> - (of_int n / 100 - x) \<le> 5 / 1000" by linarith
  then have "\<bar>of_int n / 100 - x\<bar> \<le> 5 / 1000" by (simp only: abs_le_iff)
  then show ?thesis by (simp only: n_def)
qed

text \<open>
  Rounding a non-negative value to binary64 moves it by at most one part in \<open>2\<^sup>5\<^sup>3\<close> and
  a little; up to \<open>2\<^sup>1\<^sup>0\<^sup>0\<^sup>2\<close> the result is a finite number of the machine.
\<close>

lemma r64_close:
  assumes "0 \<le> x"
  shows "\<bar>r64 x - x\<bar> \<le> x / 2 ^ 53 + 1 / 2 ^ 70"
proof -
  have "\<bar>r64 x - x\<bar> \<le> \<bar>x\<bar> / 2 ^ 53 + 1 / 2 ^ 1075" by (rule r64_error)
  moreover have "(1::real) / 2 ^ 1075 \<le> 1 / 2 ^ 70" by simp
  ultimately show ?thesis using assms by simp
qed

lemma round64_bounded:
  assumes "0 \<le> x" and "x \<le> 2 ^ 1002"
  shows "round64 x = Fin (r64 x)"
proof -
  have "0 \<le> r64 x" using assms(1) by (rule r64_nonneg)
  moreover have "\<bar>r64 x - x\<bar> \<le> x / 2 ^ 53 + 1 / 2 ^ 70" using assms(1) by (rule r64_close)
  moreover have "x / 2 ^ 53 \<le> x" using assms(1) by (simp add: divide_le_eq)
  moreover have "(1::real) / 2 ^ 70 \<le> 1" by simp
  ultimately have "\<bar>r64 x\<bar> \<le> 2 * x + 1" by linarith
  also have "\<dots> \<le> 2 * 2 ^ 1002 + 1" using assms(2) by simp
  also have "\<dots> < 2 ^ 1024" by simp
  finally show ?thesis by (rule round64_Fin)
qed

text \<open>The errors of two roundings to binary64 around a rounding to two decimals, added up.\<close>

lemma darToEur_errors:
  fixes e m p P :: real
  assumes ec: "\<bar>e - m\<bar> \<le> m / 2 ^ 53 + 1 / 2 ^ 70"
    and mc: "\<bar>m - p\<bar> \<le> 5 / 1000"
    and pc: "\<bar>p - P\<bar> \<le> P / 2 ^ 53 + 1 / 2 ^ 70" and P0: "0 \<le> P"
  shows "\<bar>e - P\<bar> \<le> (5 / 1000 + 1 / 2 ^ 60) + (5 / 2) / 2 ^ 53 * P"
proof -
  from ec have e1: "e - m \<le> m / 2 ^ 53 + 1 / 2 ^ 70" "m - e \<le> m / 2 ^ 53 + 1 / 2 ^ 70"
    by linarith+
  from mc have m1: "m - p \<le> 5 / 1000" "p - m \<le> 5 / 1000" by linarith+
  from pc have p1: "p - P \<le> P / 2 ^ 53 + 1 / 2 ^ 70" "P - p \<le> P / 2 ^ 53 + 1 / 2 ^ 70"
    by linarith+
  have "e - P \<le> (5 / 1000 + 1 / 2 ^ 60) + (5 / 2) / 2 ^ 53 * P"
    using e1 m1 p1 P0 by simp
  moreover have "P - e \<le> (5 / 1000 + 1 / 2 ^ 60) + (5 / 2) / 2 ^ 53 * P"
    using e1 m1 p1 P0 by simp
  ultimately show ?thesis by linarith
qed

text \<open>The error of the quotient and that of its floor, added up.\<close>

lemma roundTrip_errors:
  fixes d a w X :: real
  assumes dc: "\<bar>d - X\<bar> \<le> (1 + 1 / 2 ^ 70) + X / 2 ^ 53"
    and Qc: "\<bar>X - a\<bar> \<le> (5 / 1000 + 1 / 2 ^ 60) * w + (5 / 2) / 2 ^ 53 * a"
    and a: "0 \<le> a" and w0: "0 \<le> w"
  shows "\<bar>d - a\<bar> \<le> (5 / 1000) * w + 1 + (a + (5 / 1000) * w + 1) / 2 ^ 51"
proof -
  from dc have d1: "d - X \<le> (1 + 1 / 2 ^ 70) + X / 2 ^ 53" "X - d \<le> (1 + 1 / 2 ^ 70) + X / 2 ^ 53"
    by linarith+
  from Qc have q1: "X - a \<le> (5 / 1000 + 1 / 2 ^ 60) * w + (5 / 2) / 2 ^ 53 * a"
    "a - X \<le> (5 / 1000 + 1 / 2 ^ 60) * w + (5 / 2) / 2 ^ 53 * a" by linarith+
  have "d - a \<le> (5 / 1000) * w + 1 + (a / 2 ^ 51 + (5 / 1000) * w / 2 ^ 51 + 1 / 2 ^ 51)"
    using d1 q1 a w0 by simp
  moreover have "a - d \<le> (5 / 1000) * w + 1 + (a / 2 ^ 51 + (5 / 1000) * w / 2 ^ 51 + 1 / 2 ^ 51)"
    using d1 q1 a w0 by simp
  ultimately have "\<bar>d - a\<bar> \<le> (5 / 1000) * w + 1 + (a / 2 ^ 51 + (5 / 1000) * w / 2 ^ 51 + 1 / 2 ^ 51)"
    by linarith
  then show ?thesis by (simp only: add_divide_distrib)
qed

text \<open>
  \<open>darToEur\<close> returns the product to within 0.005, a little, and five halves of a part
  in \<open>2\<^sup>5\<^sup>3\<close>.
\<close>

lemma darToEur_close:
  assumes a: "0 \<le> a" and r: "0 \<le> r" and le: "a * r \<le> 2 ^ 1000"
    and rate: "or_default rate_arg DEFAULT_DAR_EUR_RATE = Fin r"
  shows "\<exists>e. darToEur (Fin a) rate_arg = Inr (Fin e) \<and> 0 \<le> e \<and>
           \<bar>e - a * r\<bar> \<le> (5 / 1000 + 1 / 2 ^ 60) + (5 / 2) / 2 ^ 53 * (a * r)"
proof -
  define P where "P = a * r"
  define p where "p = r64 P"
  have P0: "0 \<le> P" using a r by (simp add: P_def)
  have Ple: "P \<le> 2 ^ 1002"
  proof -
    have "P \<le> 2 ^ 1000" using le by (simp only: P_def)
    also have "\<dots> \<le> (2::real) ^ 1002" by simp
    finally show ?thesis .
  qed
  have p0: "0 \<le> p" unfolding p_def using P0 by (rule r64_nonneg)
  have pc: "\<bar>p - P\<bar> \<le> P / 2 ^ 53 + 1 / 2 ^ 70" unfolding p_def using P0 by (rule r64_close)
  have mul: "mul64 (Fin a) (Fin r) = Fin p"
    using round64_bounded [OF P0 Ple] by (simp add: mul64_Fin P_def p_def)
  have d: "darToEur (Fin a) rate_arg = Inr (parseFloat_toFixed2 (Fin p))"
    using a rate mul by (simp add: darToEur_def)
  show ?thesis
  proof (cases "10 ^ 21 \<le> p")
    case True
    then have "parseFloat_toFixed2 (Fin p) = Fin p"
      using p0 by (simp add: parseFloat_toFixed2_def)
    moreover have "\<bar>p - P\<bar> \<le> (5 / 1000 + 1 / 2 ^ 60) + (5 / 2) / 2 ^ 53 * P"
      using pc P0 by simp
    ultimately show ?thesis using d p0 by (simp add: P_def)
  next
    case False
    define m where "m = real_of_int \<lfloor>p * 100 + 1 / 2\<rfloor> / 100"
    define e where "e = r64 m"
    have mc: "\<bar>m - p\<bar> \<le> 5 / 1000" unfolding m_def using p0 by (rule round2_close)
    have "0 \<le> \<lfloor>p * 100 + 1 / 2\<rfloor>" using p0 by simp
    then have m0: "0 \<le> m" by (simp add: m_def)
    have "m \<le> 10 ^ 21 + 1" using mc False by linarith
    also have "\<dots> \<le> (2::real) ^ 1002" by simp
    finally have mle: "m \<le> 2 ^ 1002" .
    have e0: "0 \<le> e" unfolding e_def using m0 by (rule r64_nonneg)
    have ec: "\<bar>e - m\<bar> \<le> m / 2 ^ 53 + 1 / 2 ^ 70" unfolding e_def using m0 by (rule r64_close)
    have "round64 m = Fin e" unfolding e_def using m0 mle by (rule round64_bounded)
    then have pf: "parseFloat_toFixed2 (Fin p) = Fin e"
      using False p0 by (simp add: parseFloat_toFixed2_def m_def)
    have "\<bar>e - P\<bar> \<le> (5 / 1000 + 1 / 2 ^ 60) + (5 / 2) / 2 ^ 53 * P"
      using ec mc pc P0 by (rule darToEur_errors)
    then show ?thesis using d pf e0 by (simp add: P_def)
  qed
qed

text \<open>
  \<open>eurToDar\<close> returns the quotient to within 1, a little, and one part in \<open>2\<^sup>5\<^sup>3\<close>.
\<close>

lemma eurToDar_close:
  assumes e: "0 \<le> e" and r: "0 < r" and le: "e / r \<le> 2 ^ 1002"
    and rate: "or_default rate_arg DEFAULT_DAR_EUR_RATE = Fin r"
  shows "\<exists>d. eurToDar (Fin e) rate_arg = Inr (Fin d) \<and>
           \<bar>d - e / r\<bar> \<le> (1 + 1 / 2 ^ 70) + (e / r) / 2 ^ 53"
proof -
  define Q where "Q = e / r"
  define q where "q = r64 Q"
  have Q0: "0 \<le> Q" using e r by (simp add: Q_def)
  have Qle: "Q \<le> 2 ^ 1002" using le by (simp only: Q_def)
  have qc: "\<bar>q - Q\<bar> \<le> Q / 2 ^ 53 + 1 / 2 ^ 70" unfolding q_def using Q0 by (rule r64_close)
  have "div64 (Fin e) (Fin r) = Fin q"
    using round64_bounded [OF Q0 Qle] r by (simp add: div64_Fin Q_def q_def)
  then have d: "eurToDar (Fin e) rate_arg = Inr (Fin (of_int \<lfloor>q\<rfloor>))"
    using e rate by (simp add: eurToDar_def)
  have "of_int \<lfloor>q\<rfloor> \<le> q" "q < of_int \<lfloor>q\<rfloor> + 1" by linarith+
  with qc have "\<bar>of_int \<lfloor>q\<rfloor> - Q\<bar> \<le> (1 + 1 / 2 ^ 70) + Q / 2 ^ 53" by linarith
  with d show ?thesis by (simp add: Q_def)
qed

text \<open>An error of the product, divided by the rate.\<close>

lemma divide_close:
  fixes a r e c k :: real
  assumes r: "0 < r" and c: "\<bar>e - a * r\<bar> \<le> c + k * (a * r)"
  shows "\<bar>e / r - a\<bar> \<le> c / r + k * a"
proof -
  have "e / r - a = (e - a * r) / r" using r by (simp add: field_simps)
  then have "\<bar>e / r - a\<bar> = \<bar>e - a * r\<bar> / r" using r by simp
  also have "\<dots> \<le> (c + k * (a * r)) / r" using c r by (simp add: divide_right_mono)
  also have "\<dots> = c / r + k * a" using r by (simp add: field_simps)
  finally show ?thesis .
qed

text \<open>
  C5, amended: for every finite non-negative amount \<open>a\<close> and every finite positive rate
  \<open>r\<close> (given, or the default 0.01) such that \<open>a\<close>, \<open>1 / r\<close> and \<open>a * r\<close> are at most
  \<open>2\<^sup>1\<^sup>0\<^sup>0\<^sup>0\<close>, the round trip returns a finite number within
  \<open>0.005 / r + 1 + (a + 0.005 / r + 1) / 2\<^sup>5\<^sup>1\<close> of \<open>a\<close>: the error of the rounding to two
  decimals and of the floor, and that of the three roundings to binary64.
\<close>

theorem roundTrip_bounded:
  assumes a: "0 \<le> a" and r: "0 < r"
    and amax: "a \<le> 2 ^ 1000" and rmin: "1 / r \<le> 2 ^ 1000" and pmax: "a * r \<le> 2 ^ 1000"
    and rate: "or_default rate_arg DEFAULT_DAR_EUR_RATE = Fin r"
  shows "\<exists>d. roundTrip (Fin a) rate_arg = Inr (Fin d) \<and>
           \<bar>d - a\<bar> \<le> (5 / 1000) / r + 1 + (a + (5 / 1000) / r + 1) / 2 ^ 51"
proof -
  define w where "w = 1 / r"
  have w0: "0 \<le> w" using r by (simp add: w_def)
  have wmax: "w \<le> 2 ^ 1000" using rmin by (simp only: w_def)
  from r have r0: "0 \<le> r" by simp
  from darToEur_close [OF a r0 pmax rate]
  obtain e where d2e: "darToEur (Fin a) rate_arg = Inr (Fin e)" and e0: "0 \<le> e"
    and ec: "\<bar>e - a * r\<bar> \<le> (5 / 1000 + 1 / 2 ^ 60) + (5 / 2) / 2 ^ 53 * (a * r)"
    by blast
  have "\<bar>e / r - a\<bar> \<le> (5 / 1000 + 1 / 2 ^ 60) / r + (5 / 2) / 2 ^ 53 * a"
    using r ec by (rule divide_close)
  then have Qc: "\<bar>e / r - a\<bar> \<le> (5 / 1000 + 1 / 2 ^ 60) * w + (5 / 2) / 2 ^ 53 * a"
    by (simp only: w_def times_divide_eq_right mult_1_right)
  have "e / r \<le> a + w + a" using Qc a w0 by simp
  also have "\<dots> \<le> 2 ^ 1000 + 2 ^ 1000 + 2 ^ 1000" using amax wmax by (intro add_mono)
  also have "\<dots> \<le> (2::real) ^ 1002" by simp
  finally have "e / r \<le> 2 ^ 1002" .
  from eurToDar_close [OF e0 r this rate]
  obtain d where e2d: "eurToDar (Fin e) rate_arg = Inr (Fin d)"
    and dc: "\<bar>d - e / r\<bar> \<le> (1 + 1 / 2 ^ 70) + (e / r) / 2 ^ 53"
    by blast
  have "\<bar>d - a\<bar> \<le> (5 / 1000) * w + 1 + (a + (5 / 1000) * w + 1) / 2 ^ 51"
    using dc Qc a w0 by (rule roundTrip_errors)
  then have "\<bar>d - a\<bar> \<le> (5 / 1000) / r + 1 + (a + (5 / 1000) / r + 1) / 2 ^ 51"
    by (simp only: w_def times_divide_eq_right mult_1_right)
  moreover have "roundTrip (Fin a) rate_arg = Inr (Fin d)"
    using d2e e2d by (simp add: roundTrip_def)
  ultimately show ?thesis by blast
qed

theorem roundTrip_bounded_witness:
  "(0::real) \<le> 1234 \<and> (0::real) < 5764607523034235 / 2 ^ 59 \<and> (1234::real) \<le> 2 ^ 1000 \<and>
   (1::real) / (5764607523034235 / 2 ^ 59) \<le> 2 ^ 1000 \<and>
   (1234::real) * (5764607523034235 / 2 ^ 59) \<le> 2 ^ 1000 \<and>
   or_default None DEFAULT_DAR_EUR_RATE = Fin (5764607523034235 / 2 ^ 59) \<and>
   roundTrip (Fin 1234) None = Inr (Fin 1234) \<and>
   roundTrip (Fin 29) None = Inr (Fin 28) \<and>
   (\<exists>d. roundTrip (Fin 1234) None = Inr (Fin d) \<and>
      \<bar>d - 1234\<bar> \<le> (5 / 1000) / (5764607523034235 / 2 ^ 59) + 1 +
        (1234 + (5 / 1000) / (5764607523034235 / 2 ^ 59) + 1) / 2 ^ 51)"
proof -
  have rate: "or_default None DEFAULT_DAR_EUR_RATE = Fin (5764607523034235 / 2 ^ 59)"
    by (simp add: or_default_def default_rate)
  have h: "(0::real) \<le> 1234" "(0::real) < 5764607523034235 / 2 ^ 59" "(1234::real) \<le> 2 ^ 1000"
    "(1::real) / (5764607523034235 / 2 ^ 59) \<le> 2 ^ 1000"
    "(1234::real) * (5764607523034235 / 2 ^ 59) \<le> 2 ^ 1000"
    by simp_all
  have p1: "r64 (1234 * (5764607523034235 / 2 ^ 59)) = 6946802425218990 / 2 ^ 49"
    using r64_near [of "- 49" "1234 * (5764607523034235 / 2 ^ 59)" 6946802425218990]
    by (simp add: power_int_minus)
  have e1: "r64 (1234 / 100) = 6946802425218990 / 2 ^ 49"
    using r64_near [of "- 49" "1234 / 100" 6946802425218990]
    by (simp add: power_int_minus)
  have q1: "r64 (6946802425218990 / 2 ^ 49 / (5764607523034235 / 2 ^ 59)) = 1234"
    using r64_near [of "- 42" "6946802425218990 / 2 ^ 49 / (5764607523034235 / 2 ^ 59)" "1234 * 2 ^ 42"]
    by (simp add: power_int_minus)
  have "mul64 (Fin 1234) DEFAULT_DAR_EUR_RATE = Fin (6946802425218990 / 2 ^ 49)"
    using p1 by (simp add: default_rate mul64_Fin round64_Fin)
  moreover have "parseFloat_toFixed2 (Fin (6946802425218990 / 2 ^ 49)) = Fin (6946802425218990 / 2 ^ 49)"
    using e1 by (simp add: parseFloat_toFixed2_def round64_Fin)
  moreover have "div64 (Fin (6946802425218990 / 2 ^ 49)) DEFAULT_DAR_EUR_RATE = Fin 1234"
    using q1 by (simp add: default_rate div64_Fin round64_Fin)
  ultimately have one: "roundTrip (Fin 1234) None = Inr (Fin 1234)"
    by (simp add: roundTrip_def darToEur_def eurToDar_def or_default_def)
  have p2: "r64 (29 * (5764607523034235 / 2 ^ 59)) = 5224175567749775 / 2 ^ 54"
    using r64_near [of "- 54" "29 * (5764607523034235 / 2 ^ 59)" 5224175567749775]
    by (simp add: power_int_minus)
  have e2: "r64 (29 / 100) = 5224175567749775 / 2 ^ 54"
    using r64_near [of "- 54" "29 / 100" 5224175567749775]
    by (simp add: power_int_minus)
  have q2: "r64 (5224175567749775 / 2 ^ 54 / (5764607523034235 / 2 ^ 59)) = 8162774324609023 / 2 ^ 48"
    using r64_near [of "- 48" "5224175567749775 / 2 ^ 54 / (5764607523034235 / 2 ^ 59)" 8162774324609023]
    by (simp add: power_int_minus)
  have "mul64 (Fin 29) DEFAULT_DAR_EUR_RATE = Fin (5224175567749775 / 2 ^ 54)"
    using p2 by (simp add: default_rate mul64_Fin round64_Fin)
  moreover have "parseFloat_toFixed2 (Fin (5224175567749775 / 2 ^ 54)) = Fin (5224175567749775 / 2 ^ 54)"
    using e2 by (simp add: parseFloat_toFixed2_def round64_Fin)
  moreover have "div64 (Fin (5224175567749775 / 2 ^ 54)) DEFAULT_DAR_EUR_RATE = Fin (8162774324609023 / 2 ^ 48)"
    using q2 by (simp add: default_rate div64_Fin round64_Fin)
  ultimately have two: "roundTrip (Fin 29) None = Inr (Fin 28)"
    by (simp add: roundTrip_def darToEur_def eurToDar_def or_default_def)
  from roundTrip_bounded [OF h rate]
  have "\<exists>d. roundTrip (Fin 1234) None = Inr (Fin d) \<and>
      \<bar>d - 1234\<bar> \<le> (5 / 1000) / (5764607523034235 / 2 ^ 59) + 1 +
        (1234 + (5 / 1000) / (5764607523034235 / 2 ^ 59) + 1) / 2 ^ 51" .
  with h rate one two show ?thesis by (intro conjI)
qed


subsection \<open>Balance check\<close>



subsection \<open>SIRET numbers\<close>

text \<open>The pattern \<open>^\d{14}$\<close> holds of exactly the strings of 14 digits.\<close>

lemma regex_test_siret: "regex_test siretRegex s = fourteen_digits s"
proof -
  have "regex_test siretRegex s \<longleftrightarrow>
      (\<exists>n. 14 \<le> n \<and> n \<le> length s \<and> n \<le> 14 \<and> (\<forall>c \<in> set (take n s). c \<in> set ascii_digits) \<and> drop n s = [])"
    by (auto simp: siretRegex_def regex_test.simps)
  also have "\<dots> \<longleftrightarrow> fourteen_digits s"
    unfolding fourteen_digits_def
  proof
    assume "\<exists>n. 14 \<le> n \<and> n \<le> length s \<and> n \<le> 14 \<and> (\<forall>c \<in> set (take n s). c \<in> set ascii_digits) \<and> drop n s = []"
    then obtain n where n: "14 \<le> n" "n \<le> length s" "n \<le> 14"
      "\<forall>c \<in> set (take n s). c \<in> set ascii_digits" "drop n s = []" by blast
    then have "length s = 14" by simp
    with n show "length s = 14 \<and> (\<forall>c \<in> set s. c \<in> set ascii_digits)" by simp
  next
    assume "length s = 14 \<and> (\<forall>c \<in> set s. c \<in> set ascii_digits)"
    then have "14 \<le> (14::nat) \<and> 14 \<le> length s \<and> (14::nat) \<le> 14 \<and>
      (\<forall>c \<in> set (take 14 s). c \<in> set ascii_digits) \<and> drop 14 s = []" by simp
    then show "\<exists>n. 14 \<le> n \<and> n \<le> length s \<and> n \<le> 14 \<and> (\<forall>c \<in> set (take n s). c \<in> set ascii_digits) \<and> drop n s = []"
      by blast
  qed
  finally show ?thesis .
qed

lemma luhn_step:
  "(let d = d * 2 in if d > 9 then d - 9 else d) = luhn_adjust i d" if "i mod 2 = 0" for d :: nat
  using that by (simp add: luhn_adjust_def Let_def mult.commute even_iff_mod_2_eq_zero)

text \<open>From position \<open>i\<close> on, the loop adds the adjusted digits that remain.\<close>

lemma luhn_loop_sum:
  assumes "fourteen_digits s" and "i \<le> 14"
  shows "luhn_loop s i (Some a) = Some (a + (\<Sum>k = i..<14. luhn_adjust k (digit_value (s ! k))))"
  using assms(2)
proof (induction "14 - i" arbitrary: i a)
  case 0
  then have "i = 14" by simp
  then show ?case by (simp add: luhn_loop.simps)
next
  case (Suc m)
  then have i: "i < 14" by simp
  with assms(1) have p: "parseInt_at s i = Some (digit_value (s ! i))"
    by (simp add: parseInt_at_def fourteen_digits_def)
  have adj: "(if i mod 2 = 0
        then map_option (\<lambda>d. let d = d * 2 in if d > 9 then d - 9 else d) (Some (digit_value (s ! i)))
        else Some (digit_value (s ! i))) = Some (luhn_adjust i (digit_value (s ! i)))"
    by (simp add: luhn_step) (simp add: luhn_adjust_def even_iff_mod_2_eq_zero)
  have "luhn_loop s i (Some a) = luhn_loop s (i + 1) (Some (a + luhn_adjust i (digit_value (s ! i))))"
    using i by (subst luhn_loop.simps) (simp add: p adj Let_def del: map_option_eq_Some)
  also have "\<dots> = Some (a + luhn_adjust i (digit_value (s ! i)) +
      (\<Sum>k = i + 1..<14. luhn_adjust k (digit_value (s ! k))))"
    using Suc.hyps(1) [of "i + 1"] Suc.hyps(2) i by simp
  also have "\<dots> = Some (a + (\<Sum>k = i..<14. luhn_adjust k (digit_value (s ! k))))"
    using i by (simp add: sum.atLeast_Suc_lessThan)
  finally show ?case .
qed

text \<open>
  C3: \<open>validateSiret\<close> strips white space, rejects what is not exactly 14 digits, and
  otherwise accepts exactly when the sum of the adjusted digits (the digit at an even
  position doubled, less 9 above 9) is a multiple of 10. \<open>732 829 320 00074\<close> is valid
  (the sum is 50) and \<open>12345678901234\<close> is not (the sum is 57).
\<close>

theorem validateSiret_luhn:
  "validateSiret siret =
     (if \<not> fourteen_digits (remove_spaces siret) then invalid ''SIRET must be 14 digits''
      else if siret_checksum (remove_spaces siret) mod 10 = 0 then ok
      else invalid ''Invalid SIRET checksum'') \<and>
   (valid (validateSiret siret) \<longleftrightarrow>
      fourteen_digits (remove_spaces siret) \<and> 10 dvd siret_checksum (remove_spaces siret)) \<and>
   validateSiret ''732 829 320 00074'' = \<lparr> valid = True, error = None \<rparr> \<and>
   valid (validateSiret ''12345678901234'') = False"
proof -
  have main: "validateSiret siret =
     (if \<not> fourteen_digits (remove_spaces siret) then invalid ''SIRET must be 14 digits''
      else if siret_checksum (remove_spaces siret) mod 10 = 0 then ok
      else invalid ''Invalid SIRET checksum'')"
  proof (cases "fourteen_digits (remove_spaces siret)")
    case True
    from luhn_loop_sum [OF True, of 0 0]
    have "luhn_loop (remove_spaces siret) 0 (Some 0) = Some (siret_checksum (remove_spaces siret))"
      by (simp add: siret_checksum_def)
    with True show ?thesis by (simp add: validateSiret_def regex_test_siret)
  next
    case False
    then show ?thesis by (simp add: validateSiret_def regex_test_siret)
  qed
  have "valid (validateSiret siret) \<longleftrightarrow>
      fourteen_digits (remove_spaces siret) \<and> 10 dvd siret_checksum (remove_spaces siret)"
    unfolding main by (simp add: ok_def invalid_def mod_eq_0_iff_dvd)
  moreover have "validateSiret ''732 829 320 00074'' = \<lparr> valid = True, error = None \<rparr>"
    by code_simp
  moreover have "valid (validateSiret ''12345678901234'') = False"
    by code_simp
  ultimately show ?thesis using main by blast
qed

theorem validateSiret_luhn_witness:
  "fourteen_digits (remove_spaces ''732 829 320 00074'') \<and>
   siret_checksum (remove_spaces ''732 829 320 00074'') = 50 \<and>
   validateSiret ''732 829 320 00074'' = ok \<and>
   siret_checksum ''12345678901234'' = 57 \<and>
   validateSiret ''12345678901234'' = invalid ''Invalid SIRET checksum'' \<and>
   validateSiret ''7328293200007'' = invalid ''SIRET must be 14 digits''"
proof -
  have a: "fourteen_digits (remove_spaces ''732 829 320 00074'')" 
    and a': "fourteen_digits (remove_spaces ''12345678901234'')"
    and a'': "\<not> fourteen_digits (remove_spaces ''7328293200007'')" by code_simp+
  have b: "siret_checksum (remove_spaces ''732 829 320 00074'') = 50" by code_simp
  have c: "siret_checksum ''12345678901234'' = 57" 
     and c': "remove_spaces ''12345678901234'' = ''12345678901234''" by code_simp+
  from validateSiret_luhn [of "''732 829 320 00074''"] a b
  have "validateSiret ''732 829 320 00074'' = ok" by simp
  moreover from validateSiret_luhn [of "''12345678901234''"] a' c c'
  have "validateSiret ''12345678901234'' = invalid ''Invalid SIRET checksum''" by simp
  moreover from validateSiret_luhn [of "''7328293200007''"] a''
  have "validateSiret ''7328293200007'' = invalid ''SIRET must be 14 digits''" by simp
  ultimately show ?thesis using a b c by blast
qed

subsection \<open>Business e-mail addresses\<close>

text \<open>A string trims to nothing exactly when it is white space throughout.\<close>

lemma dropWhile_all: "(\<forall>c \<in> set (dropWhile P s). P c) \<longleftrightarrow> (\<forall>c \<in> set s. P c)"
  by (induction s) auto

lemma trim_empty: "trim s = [] \<longleftrightarrow> (\<forall>c \<in> set s. is_space c)"
  by (simp add: trim_def dropWhile_eq_Nil_conv dropWhile_all)

text \<open>One piece of a pattern: the run it matches, and the rest.\<close>

lemma regex_test_ConsE:
  assumes "regex_test (Rep cs lo hi # ps) s"
  obtains n where "lo \<le> n" "n \<le> length s" "case hi of None \<Rightarrow> True | Some h \<Rightarrow> n \<le> h"
    "\<forall>c \<in> set (take n s). c \<in> set cs" "regex_test ps (drop n s)"
  using assms by (auto simp: regex_test.simps)

text \<open>Every character of a matching string lies in the class of some piece.\<close>

lemma regex_test_class:
  "regex_test ps s \<Longrightarrow> c \<in> set s \<Longrightarrow> \<exists>cs lo hi. Rep cs lo hi \<in> set ps \<and> c \<in> set cs"
proof (induction ps arbitrary: s)
  case Nil
  then show ?case by (simp add: regex_test.simps)
next
  case (Cons p ps)
  obtain cs lo hi where p: "p = Rep cs lo hi" by (cases p)
  from Cons.prems(1) obtain n where n: "\<forall>c \<in> set (take n s). c \<in> set cs" "regex_test ps (drop n s)"
    unfolding p by (rule regex_test_ConsE)
  from Cons.prems(2) have "c \<in> set (take n s) \<or> c \<in> set (drop n s)"
    by (metis Un_iff append_take_drop_id set_append)
  then show ?case
  proof
    assume "c \<in> set (take n s)"
    with n(1) have "Rep cs lo hi \<in> set (p # ps) \<and> c \<in> set cs" unfolding p by simp
    then show ?thesis by blast
  next
    assume "c \<in> set (drop n s)"
    from Cons.IH [OF n(2) this] obtain cs' lo' hi' where "Rep cs' lo' hi' \<in> set ps" "c \<in> set cs'"
      by blast
    then have "Rep cs' lo' hi' \<in> set (p # ps) \<and> c \<in> set cs'" by simp
    then show ?thesis by blast
  qed
qed

text \<open>An address that matches the pattern has one \<open>@\<close>.\<close>

lemma email_shape:
  assumes "regex_test emailRegex email"
  obtains l d where "email = l @ CHR ''@'' # d" "CHR ''@'' \<notin> set l" "CHR ''@'' \<notin> set d"
proof -
  let ?rest = "[Rep (ascii_lower @ ascii_upper @ ascii_digits @ ''.-'') 1 None,
      Rep ''.'' 1 (Some 1), Rep (ascii_lower @ ascii_upper) 2 None]"
  from assms [unfolded emailRegex_def] obtain n
    where n: "\<forall>c \<in> set (take n email). c \<in> set (ascii_lower @ ascii_upper @ ascii_digits @ ''._%+-'')"
      "regex_test (Rep ''@'' 1 (Some 1) # ?rest) (drop n email)"
    by (rule regex_test_ConsE)
  from n(2) obtain k where k: "1 \<le> k" "k \<le> length (drop n email)"
    "case Some (1::nat) of None \<Rightarrow> True | Some h \<Rightarrow> k \<le> h"
    "\<forall>c \<in> set (take k (drop n email)). c \<in> set ''@''" "regex_test ?rest (drop k (drop n email))"
    by (rule regex_test_ConsE)
  from k(1,3) have k1: "k = 1" by simp
  from k(2) k1 obtain x d where xd: "drop n email = x # d" by (cases "drop n email") auto
  with k(4) k1 have x: "x = CHR ''@''" by simp
  have e: "email = take n email @ CHR ''@'' # d"
    using xd x by (metis append_take_drop_id)
  have no_at: "CHR ''@'' \<notin> set (ascii_lower @ ascii_upper @ ascii_digits @ ''._%+-'')"
    "CHR ''@'' \<notin> set (ascii_lower @ ascii_upper @ ascii_digits @ ''.-'')"
    "CHR ''@'' \<notin> set ''.''" "CHR ''@'' \<notin> set (ascii_lower @ ascii_upper)"
    by (simp_all add: ascii_lower_def ascii_upper_def ascii_digits_def)
  have "CHR ''@'' \<notin> set (take n email)"
    using n(1) no_at(1) by blast
  moreover have "CHR ''@'' \<notin> set d"
  proof
    assume "CHR ''@'' \<in> set d"
    moreover from k(5) k1 xd have "regex_test ?rest d" by simp
    ultimately obtain cs lo hi where r: "Rep cs lo hi \<in> set ?rest" and c: "CHR ''@'' \<in> set cs"
      using regex_test_class by blast
    from r have "cs = ascii_lower @ ascii_upper @ ascii_digits @ ''.-'' \<or> cs = ''.'' \<or>
        cs = ascii_lower @ ascii_upper" by auto
    with c no_at show False by blast
  qed
  ultimately show ?thesis using e that by blast
qed

text \<open>Splitting at a separator that occurs once gives the two sides.\<close>

lemma split_no_sep: "sep \<notin> set xs \<Longrightarrow> split sep xs = [xs]"
  by (induction xs) auto

lemma split_at_sep: "sep \<notin> set xs \<Longrightarrow> split sep (xs @ sep # ys) = xs # split sep ys"
  by (induction xs) auto

text \<open>Lower-casing neither adds nor removes an \<open>@\<close>.\<close>

lemma lower_keeps_at:
  assumes "CHR ''@'' \<notin> set s"
  shows "CHR ''@'' \<notin> set (toLowerCase s)"
proof
  let ?t = "zip (ascii_upper @ latin1_upper) (ascii_lower @ latin1_lower)"
  let ?f = "\<lambda>c. case map_of ?t c of Some l \<Rightarrow> l | None \<Rightarrow> c"
  have v: "CHR ''@'' \<notin> set (ascii_lower @ latin1_lower)"
    by (simp add: ascii_lower_def latin1_lower_def)
  assume "CHR ''@'' \<in> set (toLowerCase s)"
  then have "CHR ''@'' \<in> ?f ` set s" by (simp only: toLowerCase_def set_map)
  then obtain c where c: "c \<in> set s" "?f c = CHR ''@''" by (auto simp only: image_iff)
  show False
  proof (cases "map_of ?t c")
    case None
    with c(2) have "c = CHR ''@''" by (simp only: option.case)
    with c(1) assms show False by blast
  next
    case (Some l)
    with c(2) have "l = CHR ''@''" by (simp only: option.case)
    moreover from Some have "(c, l) \<in> set ?t" by (rule map_of_SomeD)
    then have "l \<in> set (ascii_lower @ latin1_lower)" by (rule set_zip_rightD)
    ultimately show False using v by blast
  qed
qed

lemma lower_at: "toLowerCase (l @ CHR ''@'' # d) = toLowerCase l @ CHR ''@'' # toLowerCase d"
proof -
  have "toLowerCase ''@'' = ''@''" by code_simp
  then have "toLowerCase (CHR ''@'' # d) = CHR ''@'' # toLowerCase d"
    by (simp add: toLowerCase_def)
  then show ?thesis by (simp add: toLowerCase_def)
qed

text \<open>For a matching address, \<open>email.toLowerCase().split('@')[1]\<close> is its domain in lower case.\<close>

lemma email_domain:
  assumes "regex_test emailRegex email"
  shows "at_index (split (CHR ''@'') (toLowerCase email)) 1 = Some (toLowerCase (domain_part email))"
proof -
  from assms obtain l d where e: "email = l @ CHR ''@'' # d"
    and l: "CHR ''@'' \<notin> set l" and d: "CHR ''@'' \<notin> set d" by (rule email_shape)
  have "split (CHR ''@'') (toLowerCase email) = [toLowerCase l, toLowerCase d]"
    unfolding e lower_at
    by (simp add: split_at_sep [OF lower_keeps_at [OF l]] split_no_sep [OF lower_keeps_at [OF d]])
  moreover have "domain_part email = d"
  proof -
    have "dropWhile (\<lambda>c. c \<noteq> CHR ''@'') (l @ CHR ''@'' # d) =
        dropWhile (\<lambda>c. c \<noteq> CHR ''@'') (CHR ''@'' # d)"
      by (rule dropWhile_append2) (use l in auto)
    then show ?thesis unfolding e domain_part_def by simp
  qed
  ultimately show ?thesis by (simp add: at_index_def)
qed

text \<open>
  C6: \<open>validateBusinessEmail\<close> returns the first error that applies, in this order:
  an empty or white-space-only input is required-email; an input that does not match
  the pattern is a format error; unless \<open>allowFreeProviders\<close> is set, an address whose
  domain in lower case is one of the 12 listed providers is a business-email error;
  everything else is valid. With \<open>allowFreeProviders\<close> the list is not consulted, and
  \<open>validateBusinessEmail("user@gmail.com", true)\<close> is valid.
\<close>

theorem validateBusinessEmail_first_error:
  "validateBusinessEmail email allow_arg =
     (if email = [] \<or> (\<forall>c \<in> set email. is_space c) then invalid ''Email is required''
      else if \<not> regex_test emailRegex email then invalid ''Invalid email format''
      else if \<not> or_default allow_arg False \<and> toLowerCase (domain_part email) \<in> set freeProviders
        then invalid ''Please use your business email address''
      else ok) \<and>
   length freeProviders = 12 \<and> distinct freeProviders \<and>
   validateBusinessEmail ''user@gmail.com'' (Some True) = \<lparr> valid = True, error = None \<rparr>"
proof -
  have "validateBusinessEmail email allow_arg =
     (if email = [] \<or> (\<forall>c \<in> set email. is_space c) then invalid ''Email is required''
      else if \<not> regex_test emailRegex email then invalid ''Invalid email format''
      else if \<not> or_default allow_arg False \<and> toLowerCase (domain_part email) \<in> set freeProviders
        then invalid ''Please use your business email address''
      else ok)"
  proof (cases "regex_test emailRegex email")
    case True
    then show ?thesis
      by (simp add: validateBusinessEmail_def Let_def trim_empty email_domain [unfolded One_nat_def])
  next
    case False
    then show ?thesis by (simp add: validateBusinessEmail_def Let_def trim_empty)
  qed
  moreover have "length freeProviders = 12" "distinct freeProviders"
    by (simp_all add: freeProviders_def)
  moreover have "validateBusinessEmail ''user@gmail.com'' (Some True) = \<lparr> valid = True, error = None \<rparr>"
    by code_simp
  ultimately show ?thesis by (intro conjI)
qed

theorem validateBusinessEmail_first_error_witness:
  "validateBusinessEmail ''   '' None = invalid ''Email is required'' \<and>
   validateBusinessEmail ''ceo@acme'' None = invalid ''Invalid email format'' \<and>
   validateBusinessEmail ''User@GMail.Com'' None = invalid ''Please use your business email address'' \<and>
   validateBusinessEmail ''user@gmail.com'' (Some True) = ok \<and>
   validateBusinessEmail ''ceo@acme.com'' None = ok"
proof -
  note eq = validateBusinessEmail_first_error [THEN conjunct1]
  have d: "or_default None False = False" "or_default (Some True) False = True"
    by (simp_all add: or_default_def)
  have sp: "(\<forall>c \<in> set ''   ''. is_space c) = True" by code_simp
  have a: "(''ceo@acme'' = []) = False" "(\<forall>c \<in> set ''ceo@acme''. is_space c) = False"
    "regex_test emailRegex ''ceo@acme'' = False"
    by code_simp+
  have b: "(''User@GMail.Com'' = []) = False" "(\<forall>c \<in> set ''User@GMail.Com''. is_space c) = False"
    "regex_test emailRegex ''User@GMail.Com'' = True"
    "(toLowerCase (domain_part ''User@GMail.Com'') \<in> set freeProviders) = True"
    by code_simp+
  have c: "(''user@gmail.com'' = []) = False" "(\<forall>c \<in> set ''user@gmail.com''. is_space c) = False"
    "regex_test emailRegex ''user@gmail.com'' = True"
    by code_simp+
  have e: "(''ceo@acme.com'' = []) = False" "(\<forall>c \<in> set ''ceo@acme.com''. is_space c) = False"
    "regex_test emailRegex ''ceo@acme.com'' = True"
    "(toLowerCase (domain_part ''ceo@acme.com'') \<in> set freeProviders) = False"
    by code_simp+
  have "validateBusinessEmail ''   '' None = invalid ''Email is required''"
    by (simp only: eq [of "''   ''" None] sp simp_thms if_True)
  moreover have "validateBusinessEmail ''ceo@acme'' None = invalid ''Invalid email format''"
    by (simp only: eq [of "''ceo@acme''" None] a simp_thms if_True if_False)
  moreover have "validateBusinessEmail ''User@GMail.Com'' None =
      invalid ''Please use your business email address''"
    by (simp only: eq [of "''User@GMail.Com''" None] b d simp_thms if_True if_False)
  moreover have "validateBusinessEmail ''user@gmail.com'' (Some True) = ok"
    by (simp only: eq [of "''user@gmail.com''" "Some True"] c d simp_thms if_True if_False)
  moreover have "validateBusinessEmail ''ceo@acme.com'' None = ok"
    by (simp only: eq [of "''ceo@acme.com''" None] e d simp_thms if_True if_False)
  ultimately show ?thesis by blast
qed

subsection \<open>Campaign dates\<close>

text \<open>Once neither side is NaN, \<open>end <= start\<close> says that the end is not after the start.\<close>

lemma not_gt_is_le: "a \<noteq> NaN \<Longrightarrow> b \<noteq> NaN \<Longrightarrow> (\<not> num_gt a b) = num_le a b"
  by (cases a; cases b) (auto simp: num_gt_def)

text \<open>
  C7: \<open>validateCampaignDates\<close> runs its checks in a fixed order and returns at the first
  that fails: an unparseable start date, an unparseable end date, a start strictly
  before the current moment, an end not strictly after the start, a duration in days
  strictly below \<open>minDurationDays\<close>, a duration strictly above \<open>maxDurationDays\<close>;
  when none fails the result is valid. The duration is the one the code computes: the
  difference of the two times and its quotient by the milliseconds of a day, each
  rounded to binary64. A duration from \<open>minDurationDays\<close> to \<open>maxDurationDays\<close>, the
  two ends included, is accepted.
\<close>

theorem validateCampaignDates_order:
  "validateCampaignDates rt startsAt endsAt min_arg max_arg =
     (let start = new_Date rt startsAt;
          end = new_Date rt endsAt;
          minDays = or_default min_arg (Fin 1);
          maxDays = or_default max_arg (Fin 365);
          duration = div64 (sub64 end start) (Fin 86400000)
      in first_failure
           [(start = NaN, ''Invalid start date''),
            (end = NaN, ''Invalid end date''),
            (num_lt start (clock rt), ''Start date cannot be in the past''),
            (\<not> num_gt end start, ''End date must be after start date''),
            (num_lt duration minDays,
               ''Campaign must run for at least '' @ ToString rt minDays @ '' day(s)''),
            (num_gt duration maxDays,
               ''Campaign cannot exceed '' @ ToString rt maxDays @ '' days'')]) \<and>
   (clock rt = Fin now \<and> now \<le> t \<and> t < e \<and>
    div64 (sub64 (Fin e) (Fin t)) (Fin 86400000) = Fin d \<and> mn \<le> d \<and> d \<le> mx \<longrightarrow>
      validateCampaignDates rt (DateObj (Fin t)) (DateObj (Fin e))
        (Some (Fin mn)) (Some (Fin mx)) = ok)"
proof
  show "validateCampaignDates rt startsAt endsAt min_arg max_arg =
     (let start = new_Date rt startsAt;
          end = new_Date rt endsAt;
          minDays = or_default min_arg (Fin 1);
          maxDays = or_default max_arg (Fin 365);
          duration = div64 (sub64 end start) (Fin 86400000)
      in first_failure
           [(start = NaN, ''Invalid start date''),
            (end = NaN, ''Invalid end date''),
            (num_lt start (clock rt), ''Start date cannot be in the past''),
            (\<not> num_gt end start, ''End date must be after start date''),
            (num_lt duration minDays,
               ''Campaign must run for at least '' @ ToString rt minDays @ '' day(s)''),
            (num_gt duration maxDays,
               ''Campaign cannot exceed '' @ ToString rt maxDays @ '' days'')])"
    by (simp add: validateCampaignDates_def Let_def isNaN_def not_gt_is_le)
next
  show "clock rt = Fin now \<and> now \<le> t \<and> t < e \<and>
    div64 (sub64 (Fin e) (Fin t)) (Fin 86400000) = Fin d \<and> mn \<le> d \<and> d \<le> mx \<longrightarrow>
      validateCampaignDates rt (DateObj (Fin t)) (DateObj (Fin e))
        (Some (Fin mn)) (Some (Fin mx)) = ok"
    by (simp add: validateCampaignDates_def Let_def isNaN_def new_Date_def or_default_def num_gt_def)
qed

theorem validateCampaignDates_order_witness:
  "validateCampaignDates (runtime_at (Fin 0)) (DateObj NaN) (DateObj NaN) None None
     = invalid ''Invalid start date'' \<and>
   validateCampaignDates (runtime_at (Fin 86400001)) (DateObj (Fin 86400000)) (DateObj (Fin 0)) None None
     = invalid ''Start date cannot be in the past'' \<and>
   validateCampaignDates (runtime_at (Fin 0)) (DateObj (Fin 0)) (DateObj (Fin 8640000))
     (Some (Fin 1)) None = invalid ''Campaign must run for at least 1 day(s)'' \<and>
   round64 (1 / 10) = Fin (7205759403792794 / 2 ^ 56) \<and>
   div64 (sub64 (Fin 8640000) (Fin 0)) (Fin 86400000) = Fin (7205759403792794 / 2 ^ 56) \<and>
   validateCampaignDates (runtime_at (Fin 0)) (DateObj (Fin 0)) (DateObj (Fin 8640000))
     (Some (Fin (7205759403792794 / 2 ^ 56))) (Some (Fin 365)) = ok \<and>
   validateCampaignDates (runtime_at (Fin 0)) (DateObj (Fin 86400000)) (DateObj (Fin 172800000))
     (Some (Fin 1)) (Some (Fin 1)) = ok"
proof -
  note eq = validateCampaignDates_order [THEN conjunct1]
  note inside = validateCampaignDates_order [THEN conjunct2, rule_format]
  have tenth: "r64 (1 / 10) = 7205759403792794 / 2 ^ 56"
    using r64_near [of "- 56" "1 / 10" 7205759403792794] by (simp add: power_int_minus)
  then have r: "round64 (1 / 10) = Fin (7205759403792794 / 2 ^ 56)"
    by (simp add: round64_Fin)
  then have short: "div64 (sub64 (Fin 8640000) (Fin 0)) (Fin 86400000) = Fin (7205759403792794 / 2 ^ 56)"
    by (simp add: sub64_Fin div64_Fin round64_numeral)
  have day: "div64 (sub64 (Fin 172800000) (Fin 86400000)) (Fin 86400000) = Fin 1"
    by (simp add: sub64_Fin div64_Fin round64_numeral round64_zero_one)
  have "validateCampaignDates (runtime_at (Fin 0)) (DateObj NaN) (DateObj NaN) None None
     = invalid ''Invalid start date''"
    unfolding eq by (simp add: new_Date_def)
  moreover have "validateCampaignDates (runtime_at (Fin 86400001)) (DateObj (Fin 86400000)) (DateObj (Fin 0)) None None
     = invalid ''Start date cannot be in the past''"
    unfolding eq by (simp add: new_Date_def runtime_at_def)
  moreover have "validateCampaignDates (runtime_at (Fin 0)) (DateObj (Fin 0)) (DateObj (Fin 8640000))
     (Some (Fin 1)) None = invalid ''Campaign must run for at least 1 day(s)''"
    unfolding eq
    by (simp add: new_Date_def runtime_at_def or_default_def num_gt_def short digits.simps digit_char_def)
  moreover have "validateCampaignDates (runtime_at (Fin 0)) (DateObj (Fin 0)) (DateObj (Fin 8640000))
     (Some (Fin (7205759403792794 / 2 ^ 56))) (Some (Fin 365)) = ok"
    by (rule inside [where now = 0 and d = "7205759403792794 / 2 ^ 56"]) (simp add: runtime_at_def short)
  moreover have "validateCampaignDates (runtime_at (Fin 0)) (DateObj (Fin 86400000)) (DateObj (Fin 172800000))
     (Some (Fin 1)) (Some (Fin 1)) = ok"
    by (rule inside [where now = 0 and d = 1]) (simp add: runtime_at_def day)
  ultimately show ?thesis using r short by (intro conjI)
qed

text \<open>
  C2, as stated: every exported function returns the same result for the same
  arguments, whatever the clock reads, \<open>validateCampaignDates\<close> in particular. The same
  dates are accepted when the clock reads 0 and rejected as past when it reads one
  millisecond after the start.
\<close>

theorem validateCampaignDates_clock_counterexample:
  "validateCampaignDates (runtime_at (Fin 0)) (DateObj (Fin 86400000)) (DateObj (Fin 172800000)) None None
     = ok \<and>
   validateCampaignDates (runtime_at (Fin 86400001)) (DateObj (Fin 86400000)) (DateObj (Fin 172800000)) None None
     = invalid ''Start date cannot be in the past'' \<and>
   runtime_at (Fin 86400001) = (runtime_at (Fin 0)) \<lparr> clock := Fin 86400001 \<rparr>"
  by (simp add: validateCampaignDates_def runtime_at_def new_Date_def or_default_def isNaN_def
      num_gt_def ok_def invalid_def sub64_Fin div64_Fin round64_numeral round64_zero_one)

text \<open>
  C2, amended: \<open>validateCampaignDates\<close> reads the clock, and its result depends on the
  clock only through the test \<open>start < now\<close>: two calls with the same arguments return
  the same result when the start is before both readings or before neither. The result
  of every other exported function does not depend on the clock: \<open>formatDar\<close> and
  \<open>validateDarBudget\<close> use the runtime for printing numbers only, and the others use
  nothing of it.
\<close>

theorem clock_dependence:
  "(dateParse rt1 = dateParse rt2 \<and> numberToString rt1 = numberToString rt2 \<and>
    num_lt (new_Date rt1 startsAt) (clock rt1) = num_lt (new_Date rt1 startsAt) (clock rt2)
    \<longrightarrow> validateCampaignDates rt1 startsAt endsAt minDays_arg maxDays_arg =
        validateCampaignDates rt2 startsAt endsAt minDays_arg maxDays_arg) \<and>
   formatDar (rt \<lparr> clock := t \<rparr>) amount opts = formatDar rt amount opts \<and>
   validateDarBudget (rt \<lparr> clock := t \<rparr>) amount minAmount_arg maxAmount_arg =
     validateDarBudget rt amount minAmount_arg maxAmount_arg"
proof (intro conjI impI)
  assume a: "dateParse rt1 = dateParse rt2 \<and> numberToString rt1 = numberToString rt2 \<and>
    num_lt (new_Date rt1 startsAt) (clock rt1) = num_lt (new_Date rt1 startsAt) (clock rt2)"
  then have d: "new_Date rt1 = new_Date rt2"
    by (intro ext) (simp add: new_Date_def split: date_arg.splits)
  from a have s: "ToString rt1 = ToString rt2"
  proof (intro ext)
    fix x show "ToString rt1 x = ToString rt2 x" using a by (cases x) simp_all
  qed
  from a d have c: "num_lt (new_Date rt2 startsAt) (clock rt1) = num_lt (new_Date rt2 startsAt) (clock rt2)"
    by simp
  show "validateCampaignDates rt1 startsAt endsAt minDays_arg maxDays_arg =
        validateCampaignDates rt2 startsAt endsAt minDays_arg maxDays_arg"
    by (simp add: validateCampaignDates_def Let_def d s c)
next
  have "toFixed2 (rt \<lparr> clock := t \<rparr>) x = toFixed2 rt x" for x
    by (cases x) (simp_all add: toFixed2_def Let_def)
  moreover have "toLocaleString_enUS (rt \<lparr> clock := t \<rparr>) x = toLocaleString_enUS rt x" for x
    by (cases x) (simp_all add: toLocaleString_enUS_def)
  ultimately show "formatDar (rt \<lparr> clock := t \<rparr>) amount opts = formatDar rt amount opts"
    by (simp add: formatDar_def Let_def)
next
  have "ToString (rt \<lparr> clock := t \<rparr>) x = ToString rt x" for x
    by (cases x) simp_all
  then show "validateDarBudget (rt \<lparr> clock := t \<rparr>) amount minAmount_arg maxAmount_arg =
     validateDarBudget rt amount minAmount_arg maxAmount_arg"
    by (simp add: validateDarBudget_def Let_def)
qed

theorem clock_dependence_witness:
  "validateCampaignDates (runtime_at (Fin 0)) (DateObj (Fin 86400000)) (DateObj (Fin 172800000)) None None
     = validateCampaignDates (runtime_at (Fin 5000)) (DateObj (Fin 86400000)) (DateObj (Fin 172800000)) None None \<and>
   validateCampaignDates (runtime_at (Fin 0)) (DateObj (Fin 86400000)) (DateObj (Fin 172800000)) None None = ok"
proof -
  have h: "dateParse (runtime_at (Fin 0)) = dateParse (runtime_at (Fin 5000)) \<and>
      numberToString (runtime_at (Fin 0)) = numberToString (runtime_at (Fin 5000)) \<and>
      num_lt (new_Date (runtime_at (Fin 0)) (DateObj (Fin 86400000))) (clock (runtime_at (Fin 0))) =
      num_lt (new_Date (runtime_at (Fin 0)) (DateObj (Fin 86400000))) (clock (runtime_at (Fin 5000)))"
    by (simp add: runtime_at_def new_Date_def)
  from clock_dependence [THEN conjunct1, rule_format, OF h]
  have "validateCampaignDates (runtime_at (Fin 0)) (DateObj (Fin 86400000)) (DateObj (Fin 172800000)) None None
     = validateCampaignDates (runtime_at (Fin 5000)) (DateObj (Fin 86400000)) (DateObj (Fin 172800000)) None None" .
  moreover have "validateCampaignDates (runtime_at (Fin 0)) (DateObj (Fin 86400000)) (DateObj (Fin 172800000)) None None = ok"
    by (simp add: validateCampaignDates_def runtime_at_def new_Date_def or_default_def isNaN_def num_gt_def
        sub64_Fin div64_Fin round64_numeral round64_zero_one)
  ultimately show ?thesis by (intro conjI)
qed

subsection \<open>Validation outcomes\<close>

lemma error_iff_invalid_results [simp]:
  "error_iff_invalid ok" "error_iff_invalid (invalid msg)"
  by (simp_all add: error_iff_invalid_def ok_def invalid_def)

text \<open>
  C8: each of \<open>validateBusinessEmail\<close>, \<open>validateSiret\<close>, \<open>validateFrenchVAT\<close>,
  \<open>validateCampaignDates\<close> and \<open>validateDarBudget\<close> returns a \<open>ValidationResult\<close> for
  every input (none has a raising branch, and the one loop terminates), and in every
  result the error is present exactly when \<open>valid\<close> is false.
\<close>

theorem validation_results_well_formed:
  "error_iff_invalid (validateBusinessEmail email allow_arg) \<and>
   error_iff_invalid (validateSiret siret) \<and>
   error_iff_invalid (validateFrenchVAT vat) \<and>
   error_iff_invalid (validateCampaignDates rt startsAt endsAt minDays_arg maxDays_arg) \<and>
   error_iff_invalid (validateDarBudget rt amount minAmount_arg maxAmount_arg)"
proof (intro conjI)
  show "error_iff_invalid (validateBusinessEmail email allow_arg)"
    by (simp add: validateBusinessEmail_def Let_def)
  show "error_iff_invalid (validateSiret siret)"
    by (simp add: validateSiret_def Let_def)
  show "error_iff_invalid (validateFrenchVAT vat)"
    by (simp add: validateFrenchVAT_def Let_def)
  show "error_iff_invalid (validateCampaignDates rt startsAt endsAt minDays_arg maxDays_arg)"
    by (simp add: validateCampaignDates_def Let_def)
  show "error_iff_invalid (validateDarBudget rt amount minAmount_arg maxAmount_arg)"
    by (simp add: validateDarBudget_def Let_def)
qed

theorem validation_results_well_formed_witness:
  "validateDarBudget (runtime_at (Fin 0)) (Fin 50) None None =
     \<lparr> valid = False, error = Some ''Minimum budget is 100 DAR'' \<rparr> \<and>
   error_iff_invalid (validateDarBudget (runtime_at (Fin 0)) (Fin 50) None None) \<and>
   validateDarBudget (runtime_at (Fin 0)) (Fin 20000000) None None =
     \<lparr> valid = False, error = Some ''Maximum budget is 10,000,000 DAR'' \<rparr> \<and>
   validateDarBudget (runtime_at (Fin 0)) (Fin (1 / 2)) None None =
     \<lparr> valid = False, error = Some ''DAR amount must be a whole number'' \<rparr> \<and>
   validateDarBudget (runtime_at (Fin 0)) NaN None None =
     \<lparr> valid = False, error = Some ''DAR amount must be a whole number'' \<rparr> \<and>
   validateDarBudget (runtime_at (Fin 0)) (Fin 5000) None None = \<lparr> valid = True, error = None \<rparr> \<and>
   error_iff_invalid (validateFrenchVAT ''FR12345678901'') \<and>
   validateFrenchVAT ''FR12345678901'' = \<lparr> valid = True, error = None \<rparr>"
proof -
  have "validateDarBudget (runtime_at (Fin 0)) (Fin 50) None None =
     \<lparr> valid = False, error = Some ''Minimum budget is 100 DAR'' \<rparr>"
    by (simp add: validateDarBudget_def or_default_def runtime_at_def invalid_def digits.simps digit_char_def)
  moreover have "validateDarBudget (runtime_at (Fin 0)) (Fin 20000000) None None =
     \<lparr> valid = False, error = Some ''Maximum budget is 10,000,000 DAR'' \<rparr>"
    by (simp add: validateDarBudget_def or_default_def runtime_at_def invalid_def digits.simps digit_char_def
        num_gt_def group3.simps)
  moreover have "validateDarBudget (runtime_at (Fin 0)) (Fin (1 / 2)) None None =
     \<lparr> valid = False, error = Some ''DAR amount must be a whole number'' \<rparr>"
    by (simp add: validateDarBudget_def or_default_def invalid_def)
  moreover have "validateDarBudget (runtime_at (Fin 0)) NaN None None =
     \<lparr> valid = False, error = Some ''DAR amount must be a whole number'' \<rparr>"
    by (simp add: validateDarBudget_def or_default_def invalid_def)
  moreover have "validateDarBudget (runtime_at (Fin 0)) (Fin 5000) None None = \<lparr> valid = True, error = None \<rparr>"
    by (simp add: validateDarBudget_def or_default_def ok_def num_gt_def)
  moreover have "validateFrenchVAT ''FR12345678901'' = \<lparr> valid = True, error = None \<rparr>"
    by code_simp
  moreover note validation_results_well_formed [of "''x''" None "''x''" "''FR12345678901''" "runtime_at (Fin 0)"
      "DateObj NaN" "DateObj NaN" None None "Fin 50" None None]
  ultimately show ?thesis by (intro conjI) (simp_all only: simp_thms)
qed

subsection \<open>Formatting a balance\<close>

text \<open>Digits by division: the tens, hundreds and thousands of a number.\<close>

lemma div10_mod10: "(n::nat) div 10 mod 10 = n mod 100 div 10"
proof -
  have "n mod 100 = 10 * (n div 10 mod 10) + n mod 10"
    using mod_mult2_eq [of n 10 10] by simp
  then show ?thesis by simp
qed

lemma div10_div10: "(n::nat) div 10 div 10 = n div 100"
  using div_mult2_eq [of n 10 10] by simp

lemma div100_mod10: "(n::nat) div 100 mod 10 = n mod 1000 div 100"
proof -
  have "n mod 1000 = 100 * (n div 100 mod 10) + n mod 100"
    using mod_mult2_eq [of n 100 10] by simp
  then show ?thesis by simp
qed

lemma div100_div10: "(n::nat) div 100 div 10 = n div 1000"
  using div_mult2_eq [of n 100 10] by simp

text \<open>The digits of a number end with its last two, and its last three, digits.\<close>

lemma digits_small: "n < 10 \<Longrightarrow> digits n = [digit_char n]"
  by (simp add: digits.simps)

lemma digits_step: "10 \<le> n \<Longrightarrow> digits n = digits (n div 10) @ [digit_char (n mod 10)]"
  by (subst digits.simps) simp

lemma digits_hundreds:
  assumes "100 \<le> n"
  shows "digits n = digits (n div 100) @ [digit_char (n mod 100 div 10), digit_char (n mod 10)]"
proof -
  have "10 \<le> n" "10 \<le> n div 10" using assms by simp_all
  then have "digits n = digits (n div 10 div 10) @ [digit_char (n div 10 mod 10)] @ [digit_char (n mod 10)]"
    by (simp add: digits_step)
  then show ?thesis by (simp add: div10_div10 div10_mod10)
qed

lemma digits_thousands:
  assumes "1000 \<le> n"
  shows "digits n = digits (n div 1000) @
    [digit_char (n mod 1000 div 100), digit_char (n mod 100 div 10), digit_char (n mod 10)]"
proof -
  have "100 \<le> n" "10 \<le> n div 100" using assms by simp_all
  then have "digits n = (digits (n div 100 div 10) @ [digit_char (n div 100 mod 10)]) @
      [digit_char (n mod 100 div 10), digit_char (n mod 10)]"
    by (simp add: digits_hundreds digits_step)
  then show ?thesis by (simp add: div100_div10 div100_mod10)
qed

lemma digits_length_le3: "n < 1000 \<Longrightarrow> length (digits n) \<le> 3"
proof -
  assume n: "n < 1000"
  show ?thesis
  proof (cases "n < 10")
    case True
    then show ?thesis by (simp add: digits_small)
  next
    case False
    show ?thesis
    proof (cases "n < 100")
      case True
      with \<open>\<not> n < 10\<close> have "n div 10 < 10" "10 \<le> n" by simp_all
      then show ?thesis by (simp add: digits_step digits_small)
    next
      case False
      with n have "n div 100 < 10" "100 \<le> n" by simp_all
      then show ?thesis by (simp add: digits_hundreds digits_small)
    qed
  qed
qed

text \<open>Below \<open>10\<^sup>2\<^sup>1\<close>, \<open>toFixed(2)\<close> prints a non-negative number to two decimal places.\<close>

lemma toFixed2_two_decimals:
  assumes "0 \<le> x" and "x < 10 ^ 21"
  shows "toFixed2 rt (Fin x) = two_decimals x"
proof -
  define n where "n = nat \<lfloor>x * 100 + 1 / 2\<rfloor>"
  define m where "m = digits n"
  define p where "p = (if length m \<le> 2 then replicate (3 - length m) (CHR ''0'') @ m else m)"
  have z: "digit_char 0 = CHR ''0''" by (simp add: digit_char_def)
  have tf: "toFixed2 rt (Fin x) = take (length p - 2) p @ ''.'' @ drop (length p - 2) p"
    using assms by (simp add: toFixed2_def Let_def n_def m_def p_def abs_of_nonneg)
  have "take (length p - 2) p @ ''.'' @ drop (length p - 2) p =
      digits (n div 100) @ ''.'' @ [digit_char (n mod 100 div 10), digit_char (n mod 10)]"
  proof (cases "n < 10")
    case True
    then have "m = [digit_char n]" by (simp add: m_def digits_small)
    then have "p = [CHR ''0'', CHR ''0'', digit_char n]" by (simp add: p_def numeral_eq_Suc)
    with True show ?thesis by (simp add: digits_small z)
  next
    case False
    show ?thesis
    proof (cases "n < 100")
      case True
      with \<open>\<not> n < 10\<close> have "m = [digit_char (n div 10), digit_char (n mod 10)]"
        by (simp add: m_def digits_step digits_small)
      then have "p = [CHR ''0'', digit_char (n div 10), digit_char (n mod 10)]"
        by (simp add: p_def)
      with True show ?thesis by (simp add: digits_small z)
    next
      case False
      then have m: "m = digits (n div 100) @ [digit_char (n mod 100 div 10), digit_char (n mod 10)]"
        by (simp add: m_def digits_hundreds)
      have "digits (n div 100) \<noteq> []" by (subst digits.simps) simp
      then have "\<not> length m \<le> 2" by (simp add: m)
      then have "p = m" by (simp add: p_def)
      then show ?thesis by (simp add: m)
    qed
  qed
  then show ?thesis by (simp add: tf two_decimals_def n_def Let_def)
qed

text \<open>Grouping the digits of a whole number from the right puts a comma at every thousand.\<close>

lemma group3_digits: "group3 (digits n) = grouped n"
proof (induction n rule: less_induct)
  case (less n)
  show ?case
  proof (cases "n < 1000")
    case True
    then show ?thesis
      by (subst group3.simps, subst grouped.simps) (simp add: digits_length_le3)
  next
    case False
    let ?t = "[digit_char (n mod 1000 div 100), digit_char (n mod 100 div 10), digit_char (n mod 10)]"
    from False have d: "digits n = digits (n div 1000) @ ?t" by (simp add: digits_thousands)
    have ne: "digits (n div 1000) \<noteq> []" by (subst digits.simps) simp
    then have len: "\<not> length (digits n) \<le> 3" by (simp add: d) 
    have "group3 (digits n) = group3 (digits (n div 1000)) @ '','' @ ?t"
      by (subst group3.simps) (simp add: len, simp add: d)
    also have "\<dots> = grouped (n div 1000) @ '','' @ ?t"
      using False less.IH [of "n div 1000"] by simp
    also have "\<dots> = grouped n" using False by (subst (2) grouped.simps) simp
    finally show ?thesis .
  qed
qed

lemma enUS_whole:
  assumes "n \<le> 2 ^ 53"
  shows "toLocaleString_enUS rt (Fin (real n)) = grouped n"
proof -
  from assms have "real n \<le> real (2 ^ 53)" by (simp only: of_nat_le_iff)
  then have "real n \<le> 2 ^ 53" by simp
  then show ?thesis by (simp add: toLocaleString_enUS_def group3_digits)
qed

text \<open>A quotient of at most \<open>10\<^sup>2\<^sup>0\<close> stays below \<open>10\<^sup>2\<^sup>1\<close> when rounded to binary64.\<close>

lemma r64_below:
  assumes "0 \<le> x" and "x \<le> 10 ^ 20"
  shows "r64 x < 10 ^ 21"
proof -
  have "\<bar>r64 x - x\<bar> \<le> \<bar>x\<bar> / 2 ^ 53 + 1 / 2 ^ 1075" by (rule r64_error)
  moreover have "\<bar>x\<bar> / 2 ^ 53 \<le> \<bar>x\<bar>" by (simp add: divide_le_eq)
  moreover have "(1::real) / 2 ^ 1075 \<le> 1" by simp
  ultimately have "r64 x \<le> x + x + 1" using assms(1) by linarith
  with assms(2) show ?thesis by simp
qed

text \<open>Such a quotient is a finite number of the machine.\<close>

lemma round64_quotient:
  assumes "0 \<le> x" and "r64 x < 10 ^ 21"
  shows "round64 x = Fin (r64 x)"
proof -
  have "0 \<le> r64 x" using assms(1) by (rule r64_nonneg)
  moreover have "(10::real) ^ 21 < 2 ^ 1024" by simp
  ultimately have "\<bar>r64 x\<bar> < 2 ^ 1024" using assms(2) by linarith
  then show ?thesis by (rule round64_Fin)
qed

text \<open>\<open>formatDar\<close> on a finite amount, branch by branch.\<close>

lemma formatDar_toFixed2:
  "formatDar rt (Fin a) opts =
     (if or_default (compact opts) False \<and> 1000000 \<le> a
        then toFixed2 rt (round64 (a / 1000000)) @ ''M'' @ (if or_default (showSymbol opts) True then '' DAR'' else [])
      else if or_default (compact opts) False \<and> 1000 \<le> a
        then toFixed2 rt (round64 (a / 1000)) @ ''K'' @ (if or_default (showSymbol opts) True then '' DAR'' else [])
      else toLocaleString_enUS rt (Fin a) @ (if or_default (showSymbol opts) True then '' DAR'' else []))"
  by (simp add: formatDar_def Let_def num_ge_def div64_Fin)

text \<open>
  C9, as stated: for every amount, the compact form of an amount of at least 1,000,000
  is the amount divided by 1,000,000 to two decimal places, followed by \<open>M\<close>. For
  the amount \<open>Infinity\<close> the text is \<open>InfinityM DAR\<close>, which is no number to two decimal
  places; and where the quotient reaches \<open>10\<^sup>2\<^sup>1\<close>, as for the amount \<open>10\<^sup>2\<^sup>8\<close>,
  \<open>toFixed\<close> prints by \<open>Number::toString\<close> instead.
\<close>

theorem formatDar_compact_counterexample:
  "(\<forall>rt. formatDar rt PosInf \<lparr> compact = Some True, showSymbol = None \<rparr> = ''InfinityM DAR'') \<and>
   (\<forall>x. two_decimals x @ ''M DAR'' \<noteq> ''InfinityM DAR'') \<and>
   (\<forall>rt. formatDar rt (Fin (10 ^ 28)) \<lparr> compact = Some True, showSymbol = None \<rparr> =
      numberToString rt (10 ^ 22) @ ''M DAR'')"
proof (intro conjI allI)
  fix rt
  show "formatDar rt PosInf \<lparr> compact = Some True, showSymbol = None \<rparr> = ''InfinityM DAR''"
    by (simp add: formatDar_def or_default_def num_ge_def toFixed2_def div64_def round_number_def)
  have "r64 (of_int (5 ^ 22) * 2 powi 22) = of_int (5 ^ 22) * 2 powi 22"
    by (rule r64_dyadic) simp_all
  then have "r64 (10 ^ 22) = 10 ^ 22" by simp
  then have "div64 (Fin (10 ^ 28)) (Fin 1000000) = Fin (10 ^ 22)"
    by (simp add: div64_Fin round64_Fin)
  then show "formatDar rt (Fin (10 ^ 28)) \<lparr> compact = Some True, showSymbol = None \<rparr> =
      numberToString rt (10 ^ 22) @ ''M DAR''"
    by (simp add: formatDar_def or_default_def num_ge_def toFixed2_def)
next
  fix x
  show "two_decimals x @ ''M DAR'' \<noteq> ''InfinityM DAR''"
  proof
    define q where "q = nat \<lfloor>x * 100 + 1 / 2\<rfloor>"
    define t where "t = [CHR ''.'', digit_char (q mod 100 div 10), digit_char (q mod 10)] @ ''M DAR''"
    assume "two_decimals x @ ''M DAR'' = ''InfinityM DAR''"
    then have e: "digits (q div 100) @ t = ''InfinityM DAR''"
      by (simp add: two_decimals_def q_def t_def Let_def)
    then have "length (digits (q div 100) @ t) = 13" by simp
    then have l: "length (digits (q div 100)) = 5" by (simp add: t_def)
    from e have "t = drop (length (digits (q div 100))) ''InfinityM DAR''"
      by (metis append_eq_conv_conj)
    then have "t = ''ityM DAR''" by (simp add: l)
    then show False by (simp add: t_def)
  qed
qed

text \<open>
  C9, amended: for every finite amount whose quotient by 1,000,000, as the machine
  computes it, is below \<open>10\<^sup>2\<^sup>1\<close> (every amount up to \<open>10\<^sup>2\<^sup>6\<close> is one), \<open>formatDar\<close>
  with \<open>compact\<close> set renders an amount of at least 1,000,000 as the binary64 quotient
  of the amount by 1,000,000, printed to two decimal places, followed by \<open>M\<close>, and an
  amount of at least 1,000 (below 1,000,000) as the binary64 quotient of the amount by
  1,000, printed to two decimal places, followed by \<open>K\<close>; otherwise it renders the
  amount in the \<open>en-US\<close> format, which for a whole number up to \<open>2\<^sup>5\<^sup>3\<close> is its digits
  in groups of three separated by commas; \<open>DAR\<close> after a space is appended unless
  \<open>showSymbol\<close> is false. \<open>formatDar(1250)\<close> is \<open>1,250 DAR\<close> and
  \<open>formatDar(1250000, {compact: true})\<close> is \<open>1.25M DAR\<close>.
\<close>

theorem formatDar_rendering:
  "(r64 (a / 1000000) < 10 ^ 21 \<longrightarrow>
      formatDar rt (Fin a) opts =
        (let compact = or_default (compact opts) False;
             symbol = (if or_default (showSymbol opts) True then '' DAR'' else [])
         in if compact \<and> 1000000 \<le> a then two_decimals (r64 (a / 1000000)) @ ''M'' @ symbol
            else if compact \<and> 1000 \<le> a then two_decimals (r64 (a / 1000)) @ ''K'' @ symbol
            else toLocaleString_enUS rt (Fin a) @ symbol)) \<and>
   (0 \<le> a \<and> a \<le> 10 ^ 26 \<longrightarrow> r64 (a / 1000000) < 10 ^ 21) \<and>
   (n \<le> 2 ^ 53 \<longrightarrow> toLocaleString_enUS rt (Fin (real n)) = grouped n) \<and>
   formatDar rt (Fin 1250) \<lparr> compact = None, showSymbol = None \<rparr> = ''1,250 DAR'' \<and>
   formatDar rt (Fin 1250000) \<lparr> compact = Some True, showSymbol = None \<rparr> = ''1.25M DAR''"
proof (intro conjI impI)
  assume a: "r64 (a / 1000000) < 10 ^ 21"
  let ?sym = "if or_default (showSymbol opts) True then '' DAR'' else []"
  let ?c = "or_default (compact opts) False"
  consider (M) "?c \<and> 1000000 \<le> a" | (K) "?c \<and> 1000 \<le> a \<and> a < 1000000"
    | (plain) "\<not> (?c \<and> 1000 \<le> a)"
    by linarith
  then show "formatDar rt (Fin a) opts =
        (let compact = or_default (compact opts) False;
             symbol = (if or_default (showSymbol opts) True then '' DAR'' else [])
         in if compact \<and> 1000000 \<le> a then two_decimals (r64 (a / 1000000)) @ ''M'' @ symbol
            else if compact \<and> 1000 \<le> a then two_decimals (r64 (a / 1000)) @ ''K'' @ symbol
            else toLocaleString_enUS rt (Fin a) @ symbol)"
  proof cases
    case M
    then have nn: "0 \<le> a / 1000000" by simp
    have "toFixed2 rt (Fin (r64 (a / 1000000))) = two_decimals (r64 (a / 1000000))"
      using r64_nonneg [OF nn] a by (rule toFixed2_two_decimals)
    then have "toFixed2 rt (round64 (a / 1000000)) = two_decimals (r64 (a / 1000000))"
      by (simp only: round64_quotient [OF nn a])
    with M show ?thesis by (simp only: formatDar_toFixed2 Let_def if_True simp_thms)
  next
    case K
    then have nn: "0 \<le> a / 1000" by simp
    have "a / 1000 \<le> 1000000 / 1000" using K by (intro divide_right_mono) simp_all
    then have "a / 1000 \<le> 10 ^ 20" by simp
    with nn have lt: "r64 (a / 1000) < 10 ^ 21" by (rule r64_below)
    have "toFixed2 rt (Fin (r64 (a / 1000))) = two_decimals (r64 (a / 1000))"
      using r64_nonneg [OF nn] lt by (rule toFixed2_two_decimals)
    then have "toFixed2 rt (round64 (a / 1000)) = two_decimals (r64 (a / 1000))"
      by (simp only: round64_quotient [OF nn lt])
    moreover from K have "\<not> 1000000 \<le> a" by simp
    ultimately show ?thesis using K by (simp only: formatDar_toFixed2 Let_def if_True if_False simp_thms)
  next
    case plain
    moreover from plain have "\<not> (?c \<and> 1000000 \<le> a)" by auto
    ultimately show ?thesis by (simp only: formatDar_toFixed2 Let_def if_False simp_thms)
  qed
next
  assume "0 \<le> a \<and> a \<le> 10 ^ 26"
  then have "0 \<le> a / 1000000" and "a / 1000000 \<le> 10 ^ 26 / 1000000"
    by (simp_all add: divide_right_mono)
  then show "r64 (a / 1000000) < 10 ^ 21" by (intro r64_below) simp_all
next
  assume "n \<le> 2 ^ 53"
  then show "toLocaleString_enUS rt (Fin (real n)) = grouped n" by (rule enUS_whole)
next
  show "formatDar rt (Fin 1250) \<lparr> compact = None, showSymbol = None \<rparr> = ''1,250 DAR''"
    by (simp add: formatDar_def or_default_def num_ge_def toLocaleString_enUS_def digits.simps
        group3.simps digit_char_def)
next
  have "r64 (of_int 5 * 2 powi (- 2)) = of_int 5 * 2 powi (- 2)" by (rule r64_dyadic) simp_all
  then have "r64 (5 / 4) = 5 / 4" by (simp add: power_int_minus)
  then have "div64 (Fin 1250000) (Fin 1000000) = Fin (5 / 4)"
    by (simp add: div64_Fin round64_Fin)
  then show "formatDar rt (Fin 1250000) \<lparr> compact = Some True, showSymbol = None \<rparr> = ''1.25M DAR''"
    by (simp add: formatDar_def or_default_def num_ge_def toFixed2_def Let_def digits.simps digit_char_def)
qed

theorem formatDar_rendering_witness:
  "r64 (1005 / 1000000) < 10 ^ 21 \<and>
   (0::real) \<le> 2500 \<and> (2500::real) \<le> 10 ^ 26 \<and> r64 (2500 / 1000000) < 10 ^ 21 \<and>
   formatDar (runtime_at (Fin 0)) (Fin 1005) \<lparr> compact = Some True, showSymbol = None \<rparr> = ''1.00K DAR'' \<and>
   formatDar (runtime_at (Fin 0)) (Fin 2500) \<lparr> compact = Some True, showSymbol = Some False \<rparr> = ''2.50K'' \<and>
   formatDar (runtime_at (Fin 0)) (Fin 2500) \<lparr> compact = None, showSymbol = None \<rparr> = ''2,500 DAR'' \<and>
   (1234567::nat) \<le> 2 ^ 53 \<and>
   toLocaleString_enUS (runtime_at (Fin 0)) (Fin (real 1234567)) = ''1,234,567''"
proof -
  note eq = formatDar_rendering [THEN conjunct1, rule_format]
  note below = formatDar_rendering [THEN conjunct2, THEN conjunct1, rule_format]
  note whole = formatDar_rendering [THEN conjunct2, THEN conjunct2, THEN conjunct1, rule_format]
  have lt: "r64 (1005 / 1000000) < 10 ^ 21" "r64 (2500 / 1000000) < 10 ^ 21"
    by (rule below, simp)+
  have d: "or_default (Some True) False = True" "or_default (Some False) True = False"
    "or_default None True = True" "or_default None False = False"
    by (simp_all add: or_default_def)
  have q1: "r64 (1005 / 1000) = 4526117625507348 / 2 ^ 52"
    using r64_near [of "- 52" "1005 / 1000" 4526117625507348] by (simp add: power_int_minus)
  have "r64 (of_int 5 * 2 powi (- 1)) = of_int 5 * 2 powi (- 1)" by (rule r64_dyadic) simp_all
  then have q2: "r64 (5 / 2) = 5 / 2" by (simp add: power_int_minus)
  from q1 have q1': "r64 (201 / 200) = 4526117625507348 / 2 ^ 52" by simp
  have t: "two_decimals (r64 (201 / 200)) = ''1.00''" "two_decimals (5 / 2) = ''2.50''"
    by (simp_all add: q1' two_decimals_def Let_def digits.simps digit_char_def)
  have g: "grouped 2500 = ''2,500''" "grouped 1234567 = ''1,234,567''"
    by (simp_all add: grouped.simps digits.simps digit_char_def)
  have le: "(2500::nat) \<le> 2 ^ 53" "(1234567::nat) \<le> 2 ^ 53" by simp_all
  have "formatDar (runtime_at (Fin 0)) (Fin 1005) \<lparr> compact = Some True, showSymbol = None \<rparr> = ''1.00K DAR''"
    using eq [OF lt(1), of "runtime_at (Fin 0)" "\<lparr> compact = Some True, showSymbol = None \<rparr>"]
    by (simp add: d t)
  moreover have "formatDar (runtime_at (Fin 0)) (Fin 2500) \<lparr> compact = Some True, showSymbol = Some False \<rparr> = ''2.50K''"
    using eq [OF lt(2), of "runtime_at (Fin 0)" "\<lparr> compact = Some True, showSymbol = Some False \<rparr>"]
    by (simp add: d q2 t)
  moreover have "toLocaleString_enUS (runtime_at (Fin 0)) (Fin (real 2500)) = ''2,500''"
    using whole [OF le(1)] g by simp
  then have "formatDar (runtime_at (Fin 0)) (Fin 2500) \<lparr> compact = None, showSymbol = None \<rparr> = ''2,500 DAR''"
    using eq [OF lt(2), of "runtime_at (Fin 0)" "\<lparr> compact = None, showSymbol = None \<rparr>"]
    by (simp add: d)
  moreover have "toLocaleString_enUS (runtime_at (Fin 0)) (Fin (real 1234567)) = ''1,234,567''"
    using whole [OF le(2)] g by simp
  ultimately show ?thesis using lt le by (intro conjI) simp_all
qed

end
